theory Spec2Isabelle
  imports Complex_Main "HOL-Library.Word" "HOL-Library.Log_Nat"
begin

section \<open>Exceptions\<close>

text \<open>
  The exceptions that the script can meet.  A function that may raise returns
  \<open>exn + 'a\<close>, with \<open>Inl\<close> for the exception.  \<open>IOError\<close> is an alias of
  \<open>OSError\<close> in Python 3, so the clause \<^verbatim>\<open>except (IOError, OSError)\<close> catches exactly
  \<open>OSError\<close>.  \<open>OtherError\<close> stands for any exception that is none of the named ones.
\<close>

datatype exn = ValueError | KeyError | OSError | ZeroDivisionError | OtherError

definition bind :: "exn + 'a \<Rightarrow> ('a \<Rightarrow> exn + 'b) \<Rightarrow> exn + 'b" where
  "bind m f = (case m of Inl e \<Rightarrow> Inl e | Inr v \<Rightarrow> f v)"

section \<open>Colour parsing: \<open>hex_to_rgb\<close>\<close>

text \<open>
  Colour strings are lists of Isabelle characters, read as the code points 0..255 of a
  Python \<open>str\<close>.

  \<^verbatim>\<open>int(s, 16)\<close> of CPython accepts more than two hexadecimal digits: surrounding white
  space, one sign, the prefix \<open>0x\<close> or \<open>0X\<close> (with one underscore after it), and single
  underscores between digits.  On the code points below 256 the white space characters
  are 9..13, 32, 133 and 160, and the digits are the ASCII ones.
\<close>

definition hex_digit :: "char \<Rightarrow> int option" where
  "hex_digit c =
     (let n = (of_char c :: nat) in
      if 48 \<le> n \<and> n \<le> 57 then Some (int n - 48)
      else if 97 \<le> n \<and> n \<le> 102 then Some (int n - 87)
      else if 65 \<le> n \<and> n \<le> 70 then Some (int n - 55)
      else None)"

definition is_space :: "char \<Rightarrow> bool" where
  "is_space c =
     (let n = (of_char c :: nat) in (9 \<le> n \<and> n \<le> 13) \<or> n = 32 \<or> n = 133 \<or> n = 160)"

text \<open>
  The digit scan: \<open>prev\<close> tells whether the previous character was an underscore,
  \<open>acc\<close> is the value read so far.  Two underscores in a row and a trailing underscore
  are refused, and so is any other character.
\<close>

fun scan_digits :: "bool \<Rightarrow> int \<Rightarrow> string \<Rightarrow> int option" where
  "scan_digits prev acc [] = (if prev then None else Some acc)"
| "scan_digits prev acc (c # cs) =
     (if c = CHR ''_'' then (if prev then None else scan_digits True acc cs)
      else (case hex_digit c of
              None \<Rightarrow> None
            | Some d \<Rightarrow> scan_digits False (16 * acc + d) cs))"

definition strip_prefix16 :: "string \<Rightarrow> string" where
  "strip_prefix16 s =
     (case s of
        c0 # c1 # rest \<Rightarrow>
          (if c0 = CHR ''0'' \<and> (c1 = CHR ''x'' \<or> c1 = CHR ''X'')
           then (case rest of c2 # rest' \<Rightarrow> (if c2 = CHR ''_'' then rest' else rest)
                            | [] \<Rightarrow> rest)
           else s)
      | _ \<Rightarrow> s)"

definition parse_unsigned16 :: "string \<Rightarrow> int option" where
  "parse_unsigned16 s =
     (let t = strip_prefix16 s in
      case t of
        [] \<Rightarrow> None
      | c # _ \<Rightarrow> (if c = CHR ''_'' then None else scan_digits False 0 t))"

definition py_int16 :: "string \<Rightarrow> exn + int" where
  "py_int16 s =
     (let t = rev (dropWhile is_space (rev (dropWhile is_space s)));
          r = (case t of
                 [] \<Rightarrow> None
               | c # cs \<Rightarrow>
                   (if c = CHR ''-'' then map_option uminus (parse_unsigned16 cs)
                    else if c = CHR ''+'' then parse_unsigned16 cs
                    else parse_unsigned16 t))
      in case r of None \<Rightarrow> Inl ValueError | Some v \<Rightarrow> Inr v)"

text \<open>\<^verbatim>\<open>hex_color.lstrip('#')\<close> removes every leading \<open>#\<close>.\<close>

definition lstrip_hash :: "string \<Rightarrow> string" where
  "lstrip_hash s = dropWhile (\<lambda>c. c = CHR ''#'') s"

text \<open>The slice \<^verbatim>\<open>s[i:i+2]\<close>; it is shorter than two characters near the end of \<open>s\<close>.\<close>

definition slice2 :: "string \<Rightarrow> nat \<Rightarrow> string" where
  "slice2 s i = take 2 (drop i s)"

text \<open>
  \<^verbatim>\<open>tuple(int(hex_color[i:i+2], 16) for i in (0, 2, 4))\<close>: the three slices are parsed
  in this order and the first failure is raised.
\<close>

definition hex_to_rgb :: "string \<Rightarrow> exn + (int \<times> int \<times> int)" where
  "hex_to_rgb hex_color =
     (let h = lstrip_hash hex_color in
      bind (py_int16 (slice2 h 0)) (\<lambda>r.
      bind (py_int16 (slice2 h 2)) (\<lambda>g.
      bind (py_int16 (slice2 h 4)) (\<lambda>b.
      Inr (r, g, b)))))"


text \<open>The strings the claims speak of: six hexadecimal digits, and \<open>#\<close> followed by six.\<close>

definition is_hex :: "char \<Rightarrow> bool" where
  "is_hex c = (hex_digit c \<noteq> None)"

definition digit_val :: "char \<Rightarrow> int" where
  "digit_val c = (case hex_digit c of Some d \<Rightarrow> d | None \<Rightarrow> 0)"

definition six_hex :: "string \<Rightarrow> bool" where
  "six_hex t = (length t = 6 \<and> list_all is_hex t)"

definition valid_hex_color :: "string \<Rightarrow> bool" where
  "valid_hex_color s = (case s of c # t \<Rightarrow> c = CHR ''#'' \<and> six_hex t | [] \<Rightarrow> False)"

definition rgb_of_digits :: "string \<Rightarrow> int \<times> int \<times> int" where
  "rgb_of_digits t =
     (16 * digit_val (t ! 0) + digit_val (t ! 1),
      16 * digit_val (t ! 2) + digit_val (t ! 3),
      16 * digit_val (t ! 4) + digit_val (t ! 5))"

text \<open>
  Modelled from the spec: \<open>toHex\<close>, the standard hex formatter, is not in the source.
  It is the format \<^verbatim>\<open>'#%02X%02X%02X' % (r, g, b)\<close> on channels in 0..255: a \<open>#\<close> and two
  upper-case hexadecimal digits for each channel.
\<close>

definition hex_char :: "int \<Rightarrow> char" where
  "hex_char d = char_of (nat (if d < 10 then 48 + d else 55 + d))"

definition hex2 :: "int \<Rightarrow> string" where
  "hex2 v = [hex_char (v div 16), hex_char (v mod 16)]"

definition to_hex :: "int \<Rightarrow> int \<Rightarrow> int \<Rightarrow> string" where
  "to_hex r g b = CHR ''#'' # hex2 r @ hex2 g @ hex2 b"

section \<open>Floating-point arithmetic of the gradient\<close>

text \<open>
  Python floats are IEEE 754 binary64 numbers.  A finite float is modelled by the
  rational number it denotes, and each operation by the exact operation followed by
  rounding to the nearest float, ties to even (\<open>fl\<close>).  A float has a 53 bit significand;
  below \<open>2 powi (- 1022)\<close> the spacing stays \<open>2 powi (- 1074)\<close>.  Overflow is not modelled: the gradient only
  forms quotients in \<open>[0, 1)\<close> and products and sums of magnitude at most 510.
\<close>

definition rne :: "rat \<Rightarrow> int" where
  "rne x = (let f = \<lfloor>x\<rfloor>; d = x - of_int f in
            if d < 1 / 2 then f else if 1 / 2 < d then f + 1
            else if even f then f else f + 1)"

text \<open>For \<open>x > 0\<close>, \<open>ilog2 x\<close> is the exponent \<open>e\<close> with \<open>2 powi e \<le> x < 2 powi (e + 1)\<close>.\<close>

definition ilog2 :: "rat \<Rightarrow> int" where
  "ilog2 x = (if 1 \<le> x then bitlen \<lfloor>x\<rfloor> - 1 else - bitlen (\<lceil>1 / x\<rceil> - 1))"

definition ulp_exp :: "rat \<Rightarrow> int" where
  "ulp_exp x = max (ilog2 x) (- 1022) - 52"

definition fl :: "rat \<Rightarrow> rat" where
  "fl x = (if x = 0 then 0 else
            let u = 2 powi (ulp_exp \<bar>x\<bar>)
            in sgn x * of_int (rne (\<bar>x\<bar> / u)) * u)"

text \<open>
  \<^verbatim>\<open>x / width\<close> on two integers is the correctly rounded quotient; the script divides
  only inside the loops, where the divisor is positive.  An integer operand of a float
  operation is converted to a float first.  \<^verbatim>\<open>int(f)\<close> truncates towards zero.
\<close>

definition true_div :: "int \<Rightarrow> int \<Rightarrow> rat" where
  "true_div a b = fl (of_int a / of_int b)"

definition float_of_int :: "int \<Rightarrow> rat" where
  "float_of_int n = fl (of_int n)"

definition fmul :: "rat \<Rightarrow> rat \<Rightarrow> rat" where
  "fmul a b = fl (a * b)"

definition fadd :: "rat \<Rightarrow> rat \<Rightarrow> rat" where
  "fadd a b = fl (a + b)"

definition py_trunc :: "rat \<Rightarrow> int" where
  "py_trunc x = (if 0 \<le> x then \<lfloor>x\<rfloor> else \<lceil>x\<rceil>)"

text \<open>One channel of the gradient: \<^verbatim>\<open>int(r1 + (r2 - r1) * ratio)\<close>.\<close>

definition lerp :: "int \<Rightarrow> int \<Rightarrow> rat \<Rightarrow> int" where
  "lerp c1 c2 ratio =
     py_trunc (fadd (float_of_int c1) (fmul (float_of_int (c2 - c1)) ratio))"

section \<open>Images and the drawing primitives of the imaging library\<close>

text \<open>
  The script draws through the imaging library (\<open>Image\<close>, \<open>ImageDraw\<close>, \<open>ImageFont\<close>).
  An image has a mode, a size and one pixel of four bytes at each position; in mode
  \<open>RGB\<close> the fourth byte is padding that no operation of the script reads, and the model
  keeps it at 255, the alpha that \<^verbatim>\<open>convert('RGBA')\<close> gives every pixel.  The field
  \<open>im_calls\<close> records the library calls that shaped the image, in the order they were made.
\<close>

type_synonym byte = "8 word"

type_synonym pixel = "byte \<times> byte \<times> byte \<times> byte"

datatype mode = RGB | RGBA

text \<open>
  A fill is a tuple of three or four integers or the colour name \<^verbatim>\<open>'white'\<close>, the only
  name the script uses.  A font is the file and size it was loaded from, or the built-in
  default.  Displayed text is a list of code points.
\<close>

datatype fill = Rgb int int int | Rgba int int int int | White

datatype font = TrueType string int | DefaultFont

type_synonym ustr = "nat list"

datatype call =
    New mode int int
  | Line "int \<times> int" "int \<times> int" fill int
  | Point "int \<times> int" fill
  | Ellipse "int \<times> int \<times> int \<times> int" fill
  | Convert mode
  | Composite
  | Text "int \<times> int" ustr fill font

record image =
  im_mode :: mode
  im_width :: int
  im_height :: int
  im_pix :: "int \<Rightarrow> int \<Rightarrow> pixel"
  im_calls :: "call list"

text \<open>
  What the script takes from its surroundings: the fonts that can be loaded, the
  rasters that the library computes and this model does not (text, ellipses, segments
  that are neither horizontal nor vertical), and whether a file can be written.

  \<^item> \<open>truetype path size\<close> is the exception that \<^verbatim>\<open>ImageFont.truetype(path, size)\<close> raises,
    \<open>None\<close> when the font loads; a missing file gives \<open>OSError\<close>.
  \<^item> \<open>textbbox font text\<close> is the result of \<^verbatim>\<open>draw.textbbox((0, 0), text, font=font)\<close>.
  \<^item> \<open>text_paint font text xy ink x y p\<close> is the pixel at \<open>(x, y)\<close> after drawing \<open>text\<close>
    at \<open>xy\<close> with \<open>ink\<close> over the pixel \<open>p\<close>.
  \<^item> \<open>ellipse_cover bbox x y\<close> tells whether the filled ellipse in \<open>bbox\<close> covers \<open>(x, y)\<close>.
  \<^item> \<open>save_error path\<close> is the exception raised when \<open>path\<close> is opened for writing,
    \<open>None\<close> when the file can be written.
\<close>

record env =
  truetype :: "string \<Rightarrow> int \<Rightarrow> exn option"
  textbbox :: "font \<Rightarrow> ustr \<Rightarrow> exn + (int \<times> int \<times> int \<times> int)"
  text_paint :: "font \<Rightarrow> ustr \<Rightarrow> int \<times> int \<Rightarrow> pixel \<Rightarrow> int \<Rightarrow> int \<Rightarrow> pixel \<Rightarrow> pixel"
  ellipse_cover :: "int \<times> int \<times> int \<times> int \<Rightarrow> int \<Rightarrow> int \<Rightarrow> bool"
  oblique_cover :: "int \<times> int \<Rightarrow> int \<times> int \<Rightarrow> int \<Rightarrow> int \<Rightarrow> int \<Rightarrow> bool"
  save_error :: "string \<Rightarrow> exn option"

text \<open>An integer channel of a fill is clipped to a byte.\<close>

definition clip8 :: "int \<Rightarrow> byte" where
  "clip8 i = (if i < 0 then 0 else if 255 < i then 255 else word_of_int i)"

definition ink :: "mode \<Rightarrow> fill \<Rightarrow> pixel" where
  "ink m f =
     (case f of
        Rgb r g b \<Rightarrow> (clip8 r, clip8 g, clip8 b, 255)
      | Rgba r g b a \<Rightarrow> (clip8 r, clip8 g, clip8 b, (case m of RGBA \<Rightarrow> clip8 a | RGB \<Rightarrow> 255))
      | White \<Rightarrow> (255, 255, 255, 255))"

definition inside :: "image \<Rightarrow> int \<Rightarrow> int \<Rightarrow> bool" where
  "inside img x y = (0 \<le> x \<and> x < im_width img \<and> 0 \<le> y \<and> y < im_height img)"

text \<open>The three channels of a pixel as integers, as \<^verbatim>\<open>getpixel\<close> shows them in mode \<open>RGB\<close>.\<close>

definition rgb_at :: "image \<Rightarrow> int \<Rightarrow> int \<Rightarrow> int \<times> int \<times> int" where
  "rgb_at img x y = (case im_pix img x y of (r, g, b, a) \<Rightarrow> (uint r, uint g, uint b))"

text \<open>\<^verbatim>\<open>Image.new(mode, (w, h), colour)\<close>; a negative size raises \<open>ValueError\<close>.\<close>

definition image_new :: "mode \<Rightarrow> int \<Rightarrow> int \<Rightarrow> pixel \<Rightarrow> exn + image" where
  "image_new m w h p =
     (if w < 0 \<or> h < 0 then Inl ValueError
      else Inr \<lparr>im_mode = m, im_width = w, im_height = h,
                im_pix = (\<lambda>x y. p), im_calls = [New m w h]\<rparr>)"

text \<open>
  Every drawing call of the script is made on a draw object of the image's own mode, so
  the ink replaces the pixels it covers, alpha included, without blending.  Pixels
  outside the image are not touched.
\<close>

definition paint :: "(int \<Rightarrow> int \<Rightarrow> bool) \<Rightarrow> pixel \<Rightarrow> call \<Rightarrow> image \<Rightarrow> image" where
  "paint cover p c img =
     img\<lparr>im_pix := (\<lambda>x y. if inside img x y \<and> cover x y then p else im_pix img x y),
         im_calls := im_calls img @ [c]\<rparr>"

text \<open>
  \<^verbatim>\<open>draw.line([p0, p1], fill, width)\<close>.  With a width of at most 1 the segment is one
  pixel wide and holds both end points.  A wider segment is filled as the rectangle
  that the library builds around it: \<open>width div 2\<close> pixels on one side and
  \<open>(width - 1) div 2\<close> on the other, the larger part above a segment drawn from left
  to right and to the left of one drawn from top to bottom.
\<close>

definition line_cover ::
  "env \<Rightarrow> int \<times> int \<Rightarrow> int \<times> int \<Rightarrow> int \<Rightarrow> int \<Rightarrow> int \<Rightarrow> bool" where
  "line_cover env p0 p1 w x y =
     (case (p0, p1) of ((x0, y0), (x1, y1)) \<Rightarrow>
        let ru = w div 2; rd = (w - 1) div 2 in
        if x0 = x1 \<and> y0 = y1 then x = x0 \<and> y = y0
        else if x0 = x1 then
          min y0 y1 \<le> y \<and> y \<le> max y0 y1 \<and>
          (if w \<le> 1 then x = x0
           else if y0 < y1 then x0 - ru \<le> x \<and> x \<le> x0 + rd
           else x0 - rd \<le> x \<and> x \<le> x0 + ru)
        else if y0 = y1 then
          min x0 x1 \<le> x \<and> x \<le> max x0 x1 \<and>
          (if w \<le> 1 then y = y0
           else if x0 < x1 then y0 - ru \<le> y \<and> y \<le> y0 + rd
           else y0 - rd \<le> y \<and> y \<le> y0 + ru)
        else oblique_cover env p0 p1 w x y)"

definition draw_line ::
  "env \<Rightarrow> int \<times> int \<Rightarrow> int \<times> int \<Rightarrow> fill \<Rightarrow> int \<Rightarrow> image \<Rightarrow> image" where
  "draw_line env p0 p1 f w img =
     paint (line_cover env p0 p1 w) (ink (im_mode img) f) (Line p0 p1 f w) img"

definition draw_point :: "int \<times> int \<Rightarrow> fill \<Rightarrow> image \<Rightarrow> image" where
  "draw_point p f img =
     paint (\<lambda>x y. x = fst p \<and> y = snd p) (ink (im_mode img) f) (Point p f) img"

definition draw_ellipse :: "env \<Rightarrow> int \<times> int \<times> int \<times> int \<Rightarrow> fill \<Rightarrow> image \<Rightarrow> image" where
  "draw_ellipse env bbox f img =
     paint (ellipse_cover env bbox) (ink (im_mode img) f) (Ellipse bbox f) img"

definition draw_text :: "env \<Rightarrow> int \<times> int \<Rightarrow> ustr \<Rightarrow> fill \<Rightarrow> font \<Rightarrow> image \<Rightarrow> image" where
  "draw_text env xy t f fnt img =
     img\<lparr>im_pix := (\<lambda>x y. if inside img x y
                            then text_paint env fnt t xy (ink (im_mode img) f) x y (im_pix img x y)
                            else im_pix img x y),
         im_calls := im_calls img @ [Text xy t f fnt]\<rparr>"

text \<open>
  \<^verbatim>\<open>img.convert(mode)\<close>: towards \<open>RGBA\<close> every alpha becomes 255, which the padding
  already is; towards \<open>RGB\<close> the alpha is dropped, with no blending against a background.
\<close>

definition convert :: "mode \<Rightarrow> image \<Rightarrow> image" where
  "convert m img =
     img\<lparr>im_mode := m,
         im_pix := (case m of
                      RGBA \<Rightarrow> im_pix img
                    | RGB \<Rightarrow> (\<lambda>x y. case im_pix img x y of (r, g, b, a) \<Rightarrow> (r, g, b, 255))),
         im_calls := im_calls img @ [Convert m]\<rparr>"

text \<open>
  \<^verbatim>\<open>Image.alpha_composite(dst, src)\<close> in the library's integer arithmetic; both images
  must be \<open>RGBA\<close> and of one size.
\<close>

definition shift_for_div255 :: "nat \<Rightarrow> nat" where
  "shift_for_div255 a = ((a div 256) + a) div 256"

definition alpha_composite_pixel :: "pixel \<Rightarrow> pixel \<Rightarrow> pixel" where
  "alpha_composite_pixel dst src =
     (case (dst, src) of ((dr, dg, db, da), (sr, sg, sb, sa)) \<Rightarrow>
        if sa = 0 then dst
        else
          let blend = unat da * (255 - unat sa);
              outa255 = unat sa * 255 + blend;
              coef1 = unat sa * 255 * 255 * 128 div outa255;
              coef2 = 255 * 128 - coef1;
              ch = (\<lambda>s d. of_nat (shift_for_div255 (unat s * coef1 + unat d * coef2 + 128 * 128) div 128))
          in (ch sr dr, ch sg dg, ch sb db, of_nat (shift_for_div255 (outa255 + 128))))"

definition alpha_composite :: "image \<Rightarrow> image \<Rightarrow> exn + image" where
  "alpha_composite dst src =
     (if im_mode dst \<noteq> RGBA \<or> im_mode src \<noteq> RGBA
         \<or> im_width dst \<noteq> im_width src \<or> im_height dst \<noteq> im_height src
      then Inl ValueError
      else Inr (dst\<lparr>im_pix := (\<lambda>x y. alpha_composite_pixel (im_pix dst x y) (im_pix src x y)),
                    im_calls := im_calls dst @ [Composite]\<rparr>))"

section \<open>The script\<close>

definition WIDTH :: int where
  "WIDTH = 1200"

definition HEIGHT :: int where
  "HEIGHT = 630"

text \<open>
  The table \<open>FORMATS\<close> is a dictionary literal; a Python dictionary keeps the order in
  which its keys were inserted, so it is a list of pairs.  \<open>u\<close> turns an ASCII literal
  into code points; the icons and the bullet of one tagline are given by their code
  points.
\<close>

record format_spec =
  filename :: string
  title :: ustr
  subtitle :: ustr
  tagline :: ustr
  gradient :: "string \<times> string"
  icon :: ustr

definition u :: "string \<Rightarrow> ustr" where
  "u s = map of_char s"

definition FORMATS :: "(string \<times> format_spec) list" where
  "FORMATS =
     [(''main'',
       \<lparr>filename = ''og-image.png'',
        title = u ''UberPadel'',
        subtitle = u ''Tournament Manager'',
        tagline = u ''Create & manage padel tournaments instantly'',
        gradient = (''#2563EB'', ''#7C3AED''),
        icon = [0x25CF]\<rparr>),
      (''americano'',
       \<lparr>filename = ''og-image-americano.png'',
        title = u ''Americano Padel'',
        subtitle = u ''Rotating Partners'',
        tagline = u ''Everyone plays with everyone '' @ [0x2022] @ u '' 5-24 players'',
        gradient = (''#7C3AED'', ''#8B5CF6''),
        icon = [0x25D0]\<rparr>),
      (''mexicano'',
       \<lparr>filename = ''og-image-mexicano.png'',
        title = u ''Mexicano Padel'',
        subtitle = u ''Dynamic Matchups'',
        tagline = u ''Pairings based on standings '' @ [0x2022] @ u '' Competitive format'',
        gradient = (''#059669'', ''#10B981''),
        icon = [0x25C6]\<rparr>),
      (''mix'',
       \<lparr>filename = ''og-image-mix.png'',
        title = u ''Mix Tournament'',
        subtitle = u ''20-28 Players'',
        tagline = u ''Large group format with rest rotation'',
        gradient = (''#2563EB'', ''#3B82F6''),
        icon = [0x2605]\<rparr>),
      (''team'',
       \<lparr>filename = ''og-image-team.png'',
        title = u ''Team League'',
        subtitle = u ''Fixed Teams'',
        tagline = u ''League format with group stages & knockouts'',
        gradient = (''#DC2626'', ''#EF4444''),
        icon = [0x25B2]\<rparr>)]"

text \<open>\<^verbatim>\<open>range(n)\<close>\<close>

definition py_range :: "int \<Rightarrow> int list" where
  "py_range n = map int [0..<nat n]"

subsection \<open>\<open>create_gradient\<close>\<close>

text \<open>
  The body of the horizontal loop, for one column \<open>x\<close>, and the body of the inner loop
  of the other branch, for one point.
\<close>

definition gradient_column ::
  "env \<Rightarrow> int \<Rightarrow> int \<Rightarrow> int \<times> int \<times> int \<Rightarrow> int \<times> int \<times> int \<Rightarrow> int \<Rightarrow> image \<Rightarrow> image" where
  "gradient_column env width height c1 c2 x img =
     (case (c1, c2) of ((r1, g1, b1), (r2, g2, b2)) \<Rightarrow>
        let ratio = true_div x width;
            r = lerp r1 r2 ratio;
            g = lerp g1 g2 ratio;
            b = lerp b1 b2 ratio
        in draw_line env (x, 0) (x, height) (Rgb r g b) 0 img)"

definition gradient_point ::
  "int \<Rightarrow> int \<Rightarrow> int \<times> int \<times> int \<Rightarrow> int \<times> int \<times> int \<Rightarrow> int \<Rightarrow> int \<Rightarrow> image \<Rightarrow> image" where
  "gradient_point width height c1 c2 x y img =
     (case (c1, c2) of ((r1, g1, b1), (r2, g2, b2)) \<Rightarrow>
        let ratio = true_div (x + y) (width + height);
            r = lerp r1 r2 ratio;
            g = lerp g1 g2 ratio;
            b = lerp b1 b2 ratio
        in draw_point (x, y) (Rgb r g b) img)"

definition create_gradient ::
  "env \<Rightarrow> int \<Rightarrow> int \<Rightarrow> string \<Rightarrow> string \<Rightarrow> string \<Rightarrow> exn + image" where
  "create_gradient env width height color1 color2 direction =
     bind (image_new RGB width height (0, 0, 0, 255)) (\<lambda>img.
     bind (hex_to_rgb color1) (\<lambda>c1.
     bind (hex_to_rgb color2) (\<lambda>c2.
     Inr (if direction = ''horizontal''
          then fold (gradient_column env width height c1 c2) (py_range width) img
          else fold (\<lambda>x. fold (gradient_point width height c1 c2 x) (py_range height))
                 (py_range width) img))))"

subsection \<open>\<open>get_font\<close>\<close>

definition font_names :: "bool \<Rightarrow> string list" where
  "font_names bold =
     [if bold then ''/usr/share/fonts/truetype/dejavu/DejaVuSans-Bold.ttf''
      else ''/usr/share/fonts/truetype/dejavu/DejaVuSans.ttf'',
      if bold then ''/usr/share/fonts/truetype/liberation/LiberationSans-Bold.ttf''
      else ''/usr/share/fonts/truetype/liberation/LiberationSans-Regular.ttf'']"

text \<open>
  The loop over the candidates: the first font that loads is returned, \<open>OSError\<close> moves
  on to the next candidate, any other exception leaves the function.  After the last
  candidate \<^verbatim>\<open>ImageFont.load_default()\<close> is returned.
\<close>

fun try_fonts :: "env \<Rightarrow> int \<Rightarrow> string list \<Rightarrow> exn + font" where
  "try_fonts env sz [] = Inr DefaultFont"
| "try_fonts env sz (font_name # rest) =
     (case truetype env font_name sz of
        None \<Rightarrow> Inr (TrueType font_name sz)
      | Some e \<Rightarrow> (if e = OSError then try_fonts env sz rest else Inl e))"

definition get_font :: "env \<Rightarrow> int \<Rightarrow> bool \<Rightarrow> exn + font" where
  "get_font env sz bold = try_fonts env sz (font_names bold)"

subsection \<open>\<open>add_decorative_elements\<close>\<close>

definition decorative_dot :: "env \<Rightarrow> int \<Rightarrow> int \<Rightarrow> int \<Rightarrow> image \<Rightarrow> image" where
  "decorative_dot env width height i img =
     (let x = (i * 150) mod width + 50;
          y = (i * 80) mod height;
          radius = 3 + i mod 3
      in draw_ellipse env (x - radius, y - radius, x + radius, y + radius)
           (Rgba 255 255 255 30) img)"

text \<open>The remainders raise \<open>ZeroDivisionError\<close> when the width or the height is 0.\<close>

definition add_decorative_elements :: "env \<Rightarrow> int \<Rightarrow> int \<Rightarrow> image \<Rightarrow> exn + image" where
  "add_decorative_elements env width height img =
     (if width = 0 \<or> height = 0 then Inl ZeroDivisionError
      else
        let img1 = fold (decorative_dot env width height) (py_range 20) img;
            line_color = Rgba 255 255 255 40;
            img2 = draw_line env (100, height div 2) (width - 100, height div 2) line_color 2 img1
        in Inr (draw_line env (width div 2, 100) (width div 2, height - 100) line_color 2 img2))"

subsection \<open>\<open>create_og_image\<close>\<close>

text \<open>
  One text element: the bounding box is measured, the text is drawn centred
  horizontally at the height \<open>y\<close>.
\<close>

definition centered_text :: "env \<Rightarrow> ustr \<Rightarrow> font \<Rightarrow> int \<Rightarrow> fill \<Rightarrow> image \<Rightarrow> exn + image" where
  "centered_text env t fnt y f img =
     bind (textbbox env fnt t) (\<lambda>bbox.
       case bbox of (x0, y0, x1, y1) \<Rightarrow>
         let text_width = x1 - x0
         in Inr (draw_text env ((WIDTH - text_width) div 2, y) t f fnt img))"

definition accent_segments :: "((int \<times> int) \<times> (int \<times> int)) list" where
  "accent_segments =
     [((0, 0), (80, 0)),
      ((0, 0), (0, 80)),
      ((WIDTH - 80, 0), (WIDTH, 0)),
      ((WIDTH - 1, 0), (WIDTH - 1, 80)),
      ((0, HEIGHT - 1), (80, HEIGHT - 1)),
      ((0, HEIGHT - 80), (0, HEIGHT)),
      ((WIDTH - 80, HEIGHT - 1), (WIDTH, HEIGHT - 1)),
      ((WIDTH - 1, HEIGHT - 80), (WIDTH - 1, HEIGHT))]"

definition corner_accents :: "env \<Rightarrow> image \<Rightarrow> image" where
  "corner_accents env img =
     (let accent_color = Rgba 255 255 255 100
      in fold (\<lambda>seg. draw_line env (fst seg) (snd seg) accent_color 4) accent_segments img)"

definition brand_text :: ustr where
  "brand_text = u ''uberpadel.com''"

text \<open>The drawing of one image, from the gradient to the corner accents.\<close>

definition compose_og_image :: "env \<Rightarrow> format_spec \<Rightarrow> exn + image" where
  "compose_og_image env config =
     bind (create_gradient env WIDTH HEIGHT (fst (gradient config)) (snd (gradient config))
             ''horizontal'') (\<lambda>img.
     bind (add_decorative_elements env WIDTH HEIGHT img) (\<lambda>img.
     bind (image_new RGBA WIDTH HEIGHT (ink RGBA (Rgba 0 0 0 60))) (\<lambda>overlay.
     bind (alpha_composite (convert RGBA img) overlay) (\<lambda>img.
     bind (get_font env 72 True) (\<lambda>font_title.
     bind (get_font env 42 True) (\<lambda>font_subtitle.
     bind (get_font env 28 False) (\<lambda>font_tagline.
     bind (get_font env 60 True) (\<lambda>font_icon.
     bind (get_font env 24 True) (\<lambda>font_brand.
     let center_y = HEIGHT div 2 in
     bind (centered_text env (icon config) font_icon (center_y - 150) White img) (\<lambda>img.
     bind (centered_text env (title config) font_title (center_y - 60) White img) (\<lambda>img.
     bind (centered_text env (subtitle config) font_subtitle (center_y + 30)
             (Rgba 255 255 255 220) img) (\<lambda>img.
     bind (centered_text env (tagline config) font_tagline (center_y + 100)
             (Rgba 255 255 255 180) img) (\<lambda>img.
     bind (centered_text env brand_text font_brand (HEIGHT - 50)
             (Rgba 255 255 255 150) img) (\<lambda>img.
     Inr (corner_accents env img)))))))))))))))"

text \<open>
  The file system and the console.  A written file holds the mode, the size and the
  pixels of the image that was saved.  The lines printed are kept by their kind.
\<close>

record png =
  png_mode :: mode
  png_width :: int
  png_height :: int
  png_pix :: "int \<Rightarrow> int \<Rightarrow> pixel"

definition encode_png :: "image \<Rightarrow> png" where
  "encode_png img =
     \<lparr>png_mode = im_mode img, png_width = im_width img, png_height = im_height img,
      png_pix = (\<lambda>x y. if inside img x y then im_pix img x y else (0, 0, 0, 0))\<rparr>"

datatype out_line =
    Banner | Size_line int int | Blank | Created string
  | Summary nat | Files_header | File_item string

record world =
  files :: "string \<Rightarrow> png option"
  console :: "out_line list"

definition print :: "out_line list \<Rightarrow> world \<Rightarrow> world" where
  "print ls w = w\<lparr>console := console w @ ls\<rparr>"

text \<open>\<^verbatim>\<open>os.path.join\<close> and \<^verbatim>\<open>os.path.basename\<close> of two POSIX paths.\<close>

definition path_join :: "string \<Rightarrow> string \<Rightarrow> string" where
  "path_join a b =
     (if b \<noteq> [] \<and> hd b = CHR ''/'' then b
      else if a = [] \<or> last a = CHR ''/'' then a @ b
      else a @ ''/'' @ b)"

definition basename :: "string \<Rightarrow> string" where
  "basename p = rev (takeWhile (\<lambda>c. c \<noteq> CHR ''/'') (rev p))"

text \<open>
  \<^verbatim>\<open>img.save(path, 'PNG', quality=95)\<close>: the file is opened for writing, which may
  fail, and then holds the image.
\<close>

definition save_png :: "env \<Rightarrow> image \<Rightarrow> string \<Rightarrow> world \<Rightarrow> (exn + unit) \<times> world" where
  "save_png env img path w =
     (case save_error env path of
        Some e \<Rightarrow> (Inl e, w)
      | None \<Rightarrow> (Inr (), w\<lparr>files := (files w)(path \<mapsto> encode_png img)\<rparr>))"

definition create_og_image :: "env \<Rightarrow> string \<Rightarrow> string \<Rightarrow> world \<Rightarrow> (exn + string) \<times> world" where
  "create_og_image env format_key output_dir w =
     (case map_of FORMATS format_key of
        None \<Rightarrow> (Inl KeyError, w)
      | Some config \<Rightarrow>
          (case compose_og_image env config of
             Inl e \<Rightarrow> (Inl e, w)
           | Inr img \<Rightarrow>
               let output_path = path_join output_dir (filename config) in
               (case save_png env (convert RGB img) output_path w of
                  (Inl e, w') \<Rightarrow> (Inl e, w')
                | (Inr _, w') \<Rightarrow> (Inr output_path, print [Created (filename config)] w'))))"

subsection \<open>\<open>main\<close>\<close>

text \<open>
  The loop of \<open>main\<close> over the remaining keys; \<open>created_files\<close> is the list built so
  far.  An exception of \<open>create_og_image\<close> leaves the loop at once.
\<close>

fun generate_all ::
  "env \<Rightarrow> string \<Rightarrow> string list \<Rightarrow> string list \<Rightarrow> world \<Rightarrow> (exn + string list) \<times> world" where
  "generate_all env output_dir [] created_files w = (Inr created_files, w)"
| "generate_all env output_dir (format_key # rest) created_files w =
     (case create_og_image env format_key output_dir w of
        (Inl e, w') \<Rightarrow> (Inl e, w')
      | (Inr path, w') \<Rightarrow> generate_all env output_dir rest (created_files @ [path]) w')"

definition output_dir :: string where
  "output_dir = ''/home/claude/Tournament-main-15''"

definition main :: "env \<Rightarrow> world \<Rightarrow> (exn + unit) \<times> world" where
  "main env w =
     (let w1 = print [Banner, Size_line WIDTH HEIGHT, Blank] w in
      case generate_all env output_dir (map fst FORMATS) [] w1 of
        (Inl e, w2) \<Rightarrow> (Inl e, w2)
      | (Inr created_files, w2) \<Rightarrow>
          (Inr (), print ([Blank, Summary (length created_files), Blank, Files_header]
                          @ map (\<lambda>f. File_item (basename f)) created_files) w2))"

section \<open>Notions used in the statements\<close>




definition gradient_rgb :: "int \<times> int \<times> int \<Rightarrow> int \<times> int \<times> int \<Rightarrow> int \<Rightarrow> int \<Rightarrow> int \<times> int \<times> int" where
  "gradient_rgb c1 c2 x width =
     (case (c1, c2) of ((r1, g1, b1), (r2, g2, b2)) \<Rightarrow>
        (lerp r1 r2 (true_div x width), lerp g1 g2 (true_div x width),
         lerp b1 b2 (true_div x width)))"


definition column_ink :: "int \<times> int \<times> int \<Rightarrow> int \<times> int \<times> int \<Rightarrow> int \<Rightarrow> int \<Rightarrow> fill" where
  "column_ink c1 c2 x width =
     (case gradient_rgb c1 c2 x width of (r, g, b) \<Rightarrow> Rgb r g b)"

definition blank :: "mode \<Rightarrow> int \<Rightarrow> int \<Rightarrow> pixel \<Rightarrow> image" where
  "blank m w h p = \<lparr>im_mode = m, im_width = w, im_height = h,
                     im_pix = (\<lambda>x y. p), im_calls = [New m w h]\<rparr>"

definition bare_env :: env where
  "bare_env =
     \<lparr>truetype = (\<lambda>path sz. Some OSError),
      textbbox = (\<lambda>fnt t. Inr (0, 0, 6 * int (length t), 11)),
      text_paint = (\<lambda>fnt t xy p x y q.
         if fst xy \<le> x \<and> x < fst xy + 6 * int (length t) \<and> snd xy \<le> y \<and> y < snd xy + 11
         then p else q),
      ellipse_cover = (\<lambda>bbox x y.
         case bbox of (x0, y0, x1, y1) \<Rightarrow> x0 \<le> x \<and> x \<le> x1 \<and> y0 \<le> y \<and> y \<le> y1),
      oblique_cover = (\<lambda>p0 p1 w x y. False),
      save_error = (\<lambda>path. None)\<rparr>"

text \<open>
  The calls of an image are sorted into the steps of the assembly by their kind: the new
  canvas, the points and the lines of width at most 1 belong to the gradient; the
  ellipses and the lines of width 2 to the decoration; the conversion and the composite
  to the contrast layer; the lines of a larger width are the corner accents.  \<open>phases\<close>
  lists the steps in the order of the calls.  \<open>dejavu\<close> and \<open>liberation\<close> name the two
  candidates of \<open>get_font\<close>; \<open>strict_env\<close> is a surrounding whose loader refuses a size
  that is not above 0 with \<open>ValueError\<close>, as the imaging library does from version 10.1
  on, and \<open>liberation_env\<close> one where only the Liberation fonts are installed.  The
  last definitions measure the corner segments and give a value computed from the
  image drawn for a key.
\<close>

datatype phase = Gradient | Decoration | Contrast | Texts | Accents

definition phase_of :: "call \<Rightarrow> phase" where
  "phase_of c =
     (case c of
        New m w h \<Rightarrow> Gradient
      | Line p0 p1 f w \<Rightarrow> (if w \<le> 1 then Gradient else if w = 2 then Decoration else Accents)
      | Point p f \<Rightarrow> Gradient
      | Ellipse bbox f \<Rightarrow> Decoration
      | Convert m \<Rightarrow> Contrast
      | Composite \<Rightarrow> Contrast
      | Text xy t f fnt \<Rightarrow> Texts)"

definition phases :: "image \<Rightarrow> phase list" where
  "phases img = remdups_adj (map phase_of (im_calls img))"

definition dejavu :: "bool \<Rightarrow> string" where
  "dejavu bold = (if bold then ''/usr/share/fonts/truetype/dejavu/DejaVuSans-Bold.ttf''
                  else ''/usr/share/fonts/truetype/dejavu/DejaVuSans.ttf'')"

definition liberation :: "bool \<Rightarrow> string" where
  "liberation bold =
     (if bold then ''/usr/share/fonts/truetype/liberation/LiberationSans-Bold.ttf''
      else ''/usr/share/fonts/truetype/liberation/LiberationSans-Regular.ttf'')"



definition on_segment :: "(int \<times> int) \<times> (int \<times> int) \<Rightarrow> int \<Rightarrow> int \<Rightarrow> bool" where
  "on_segment seg x y =
     (case seg of ((x0, y0), (x1, y1)) \<Rightarrow>
        min x0 x1 \<le> x \<and> x \<le> max x0 x1 \<and> min y0 y1 \<le> y \<and> y \<le> max y0 y1)"

definition seg_length :: "(int \<times> int) \<times> (int \<times> int) \<Rightarrow> int" where
  "seg_length seg = (case seg of ((x0, y0), (x1, y1)) \<Rightarrow> \<bar>x1 - x0\<bar> + \<bar>y1 - y0\<bar>)"

definition axis_aligned :: "(int \<times> int) \<times> (int \<times> int) \<Rightarrow> bool" where
  "axis_aligned seg = (case seg of ((x0, y0), (x1, y1)) \<Rightarrow> x0 = x1 \<or> y0 = y1)"

definition at_corner :: "int \<times> int \<Rightarrow> (int \<times> int) \<times> (int \<times> int) \<Rightarrow> bool" where
  "at_corner c seg =
     (case (c, seg) of ((cx, cy), ((x0, y0), (x1, y1))) \<Rightarrow>
        \<bar>x0 - cx\<bar> \<le> 81 \<and> \<bar>x1 - cx\<bar> \<le> 81 \<and> \<bar>y0 - cy\<bar> \<le> 81 \<and> \<bar>y1 - cy\<bar> \<le> 81)"

definition og_result :: "env \<Rightarrow> string \<Rightarrow> (image \<Rightarrow> 'a) \<Rightarrow> exn + 'a" where
  "og_result env format_key f =
     (case map_of FORMATS format_key of
        None \<Rightarrow> Inl KeyError
      | Some config \<Rightarrow>
          (case compose_og_image env config of Inl e \<Rightarrow> Inl e | Inr img \<Rightarrow> Inr (f img)))"

section \<open>Notions used in the statements about the batch driver\<close>

text \<open>The path that \<open>main\<close> passes to \<open>img.save\<close> for an entry of the table:
  \<open>os.path.join(output_dir, config['filename'])\<close> with the directory of \<open>main\<close>.\<close>

definition og_path :: "format_spec \<Rightarrow> string" where
  "og_path config = path_join output_dir (filename config)"

text \<open>The file that a successful \<open>create_og_image\<close> leaves for an entry: the composed image,
  converted to RGB and encoded.\<close>

definition og_file :: "env \<Rightarrow> format_spec \<Rightarrow> png option" where
  "og_file env config =
     (case compose_og_image env config of
        Inl e \<Rightarrow> None
      | Inr img \<Rightarrow> Some (encode_png (convert RGB img)))"

text \<open>\<open>create_og_image\<close> returns for an entry: the composition raises nothing and the save
  raises nothing.\<close>

definition og_ok :: "env \<Rightarrow> string \<Rightarrow> format_spec \<Rightarrow> bool" where
  "og_ok env dir config =
     ((case compose_og_image env config of Inl e \<Rightarrow> False | Inr img \<Rightarrow> True)
      \<and> save_error env (path_join dir (filename config)) = None)"

text \<open>The effect of one successful \<open>create_og_image\<close> on the files.\<close>

definition write_og ::
  "env \<Rightarrow> string \<Rightarrow> string \<times> format_spec \<Rightarrow> (string \<Rightarrow> png option) \<Rightarrow> string \<Rightarrow> png option" where
  "write_og env dir kc fs = fs(path_join dir (filename (snd kc)) := og_file env (snd kc))"

text \<open>A file system with no file and a console with no line.\<close>

definition empty_world :: world where
  "empty_world = \<lparr>files = (\<lambda>path. None), console = []\<rparr>"

text \<open>The paths of the table, in table order.\<close>

definition out_paths :: "string list" where
  "out_paths = map (\<lambda>kc. og_path (snd kc)) FORMATS"

text \<open>The three lines that \<open>main\<close> prints before the loop.\<close>

definition header :: "out_line list" where
  "header = [Banner, Size_line WIDTH HEIGHT, Blank]"




text \<open>Bits of one pixel of a saved image: 8 per channel.\<close>

definition bits_per_pixel :: "mode \<Rightarrow> nat" where
  "bits_per_pixel m = (case m of RGB \<Rightarrow> 3 * LENGTH(8) | RGBA \<Rightarrow> 4 * LENGTH(8))"



section \<open>Properties of colour parsing\<close>

lemma hex_digit_range: "hex_digit c = Some d \<Longrightarrow> 0 \<le> d \<and> d \<le> 15"
  by (auto simp: hex_digit_def Let_def split: if_splits)

lemma hex_digit_plain:
  assumes "hex_digit c = Some d"
  shows "\<not> is_space c" "c \<noteq> CHR ''-''" "c \<noteq> CHR ''+''" "c \<noteq> CHR ''_''"
    "c \<noteq> CHR ''x''" "c \<noteq> CHR ''X''" "c \<noteq> CHR ''#''"
  using assms by (auto simp: hex_digit_def is_space_def Let_def split: if_splits)

lemma py_int16_two:
  assumes a: "hex_digit a = Some x" and b: "hex_digit b = Some y"
  shows "py_int16 [a, b] = Inr (16 * x + y)"
  using hex_digit_plain[OF a] hex_digit_plain[OF b] a b
  by (simp add: py_int16_def parse_unsigned16_def strip_prefix16_def)

lemma is_hex_digit_val: "is_hex c \<Longrightarrow> hex_digit c = Some (digit_val c)"
  by (auto simp: is_hex_def digit_val_def)

lemma six_hex_cases:
  assumes "six_hex t"
  obtains a b c d e f where "t = [a, b, c, d, e, f]"
    "is_hex a" "is_hex b" "is_hex c" "is_hex d" "is_hex e" "is_hex f"
proof -
  from assms have len: "length t = 6" and all: "list_all is_hex t"
    by (simp_all add: six_hex_def)
  from len obtain a b c d e f where t: "t = [a, b, c, d, e, f]"
    by (auto simp: length_Suc_conv eval_nat_numeral)
  with all that show thesis by simp
qed

lemma hex_to_rgb_six:
  assumes "six_hex (lstrip_hash s)"
  shows "hex_to_rgb s = Inr (rgb_of_digits (lstrip_hash s))"
proof -
  from assms obtain a b c d e f where t: "lstrip_hash s = [a, b, c, d, e, f]"
    and h: "is_hex a" "is_hex b" "is_hex c" "is_hex d" "is_hex e" "is_hex f"
    by (rule six_hex_cases)
  show ?thesis
    using h
    by (simp add: hex_to_rgb_def t slice2_def bind_def rgb_of_digits_def
        py_int16_two[OF is_hex_digit_val is_hex_digit_val])
qed

lemma lstrip_hash_valid: "valid_hex_color s \<Longrightarrow> lstrip_hash s = tl s \<and> six_hex (tl s)"
  apply (cases s)
   apply (simp add: valid_hex_color_def)
  subgoal for c t
    apply (cases t)
     apply (simp add: valid_hex_color_def six_hex_def)
    apply (auto simp: valid_hex_color_def six_hex_def lstrip_hash_def is_hex_def dest: hex_digit_plain)
    done
  done

lemma hex_char_digit: "0 \<le> d \<Longrightarrow> d < 16 \<Longrightarrow> hex_digit (hex_char d) = Some d"
proof -
  assume "0 \<le> d" "d < 16"
  then have "d = 0 \<or> d = 1 \<or> d = 2 \<or> d = 3 \<or> d = 4 \<or> d = 5 \<or> d = 6 \<or> d = 7
      \<or> d = 8 \<or> d = 9 \<or> d = 10 \<or> d = 11 \<or> d = 12 \<or> d = 13 \<or> d = 14 \<or> d = 15"
    by arith
  then show ?thesis
    by (elim disjE) (simp_all add: hex_char_def hex_digit_def)
qed

lemma six_hex_hex2:
  assumes "0 \<le> r" "r \<le> 255"
  shows "hex_digit (hex_char (r div 16)) = Some (r div 16)"
    and "hex_digit (hex_char (r mod 16)) = Some (r mod 16)"
  using assms by (auto intro!: hex_char_digit)

lemma to_hex_roundtrip:
  assumes "0 \<le> r" "r \<le> 255" "0 \<le> g" "g \<le> 255" "0 \<le> b" "b \<le> 255"
  shows "hex_to_rgb (to_hex r g b) = Inr (r, g, b)"
proof -
  have s: "six_hex (hex2 r @ hex2 g @ hex2 b)"
    using assms by (simp add: six_hex_def hex2_def is_hex_def six_hex_hex2)
  have l: "lstrip_hash (to_hex r g b) = hex2 r @ hex2 g @ hex2 b"
    using hex_digit_plain(7)[OF six_hex_hex2(1)[OF assms(1,2)]]
    by (simp add: lstrip_hash_def to_hex_def hex2_def)
  show ?thesis
    using hex_to_rgb_six[of "to_hex r g b"] s assms
    by (simp add: l rgb_of_digits_def hex2_def digit_val_def six_hex_hex2)
qed

lemma rgb_of_digits_range:
  assumes "six_hex t"
  shows "case rgb_of_digits t of (r, g, b) \<Rightarrow>
           0 \<le> r \<and> r \<le> 255 \<and> 0 \<le> g \<and> g \<le> 255 \<and> 0 \<le> b \<and> b \<le> 255"
proof -
  from assms obtain a b c d e f where t: "t = [a, b, c, d, e, f]"
    and h: "is_hex a" "is_hex b" "is_hex c" "is_hex d" "is_hex e" "is_hex f"
    by (rule six_hex_cases)
  have r: "\<And>c. is_hex c \<Longrightarrow> 0 \<le> digit_val c \<and> digit_val c \<le> 15"
    using hex_digit_range is_hex_digit_val by blast
  show ?thesis
    using r[OF h(1)] r[OF h(2)] r[OF h(3)] r[OF h(4)] r[OF h(5)] r[OF h(6)]
    by (simp add: t rgb_of_digits_def)
qed

text \<open>
  C4: for every valid 7-character string \<open>#RRGGBB\<close> the parser returns a triple with each
  channel in 0..255, and parsing the output of the hex formatter gives back the channels
  it was given, for all channels in 0..255.
\<close>

theorem hex_to_rgb_valid_roundtrip:
  "(valid_hex_color s \<longrightarrow>
      (\<exists>r g b. hex_to_rgb s = Inr (r, g, b) \<and>
         0 \<le> r \<and> r \<le> 255 \<and> 0 \<le> g \<and> g \<le> 255 \<and> 0 \<le> b \<and> b \<le> 255))
   \<and> (0 \<le> r' \<and> r' \<le> 255 \<and> 0 \<le> g' \<and> g' \<le> 255 \<and> 0 \<le> b' \<and> b' \<le> 255 \<longrightarrow>
      valid_hex_color (to_hex r' g' b') \<and> hex_to_rgb (to_hex r' g' b') = Inr (r', g', b'))"
proof (intro conjI impI)
  assume v: "valid_hex_color s"
  then have six: "six_hex (lstrip_hash s)"
    using lstrip_hash_valid by simp
  obtain r g b where t: "rgb_of_digits (lstrip_hash s) = (r, g, b)"
    by (cases "rgb_of_digits (lstrip_hash s)") auto
  with rgb_of_digits_range[OF six] hex_to_rgb_six[OF six]
  show "\<exists>r g b. hex_to_rgb s = Inr (r, g, b) \<and>
         0 \<le> r \<and> r \<le> 255 \<and> 0 \<le> g \<and> g \<le> 255 \<and> 0 \<le> b \<and> b \<le> 255"
    by simp
next
  assume "0 \<le> r' \<and> r' \<le> 255 \<and> 0 \<le> g' \<and> g' \<le> 255 \<and> 0 \<le> b' \<and> b' \<le> 255"
  then show "hex_to_rgb (to_hex r' g' b') = Inr (r', g', b')"
    by (simp add: to_hex_roundtrip)
next
  assume "0 \<le> r' \<and> r' \<le> 255 \<and> 0 \<le> g' \<and> g' \<le> 255 \<and> 0 \<le> b' \<and> b' \<le> 255"
  then show "valid_hex_color (to_hex r' g' b')"
    by (simp add: valid_hex_color_def to_hex_def six_hex_def hex2_def is_hex_def six_hex_hex2)
qed

theorem hex_to_rgb_valid_roundtrip_witness:
  "valid_hex_color ''#2563EB'' \<and> hex_to_rgb ''#2563EB'' = Inr (37, 99, 235)
   \<and> to_hex 37 99 235 = ''#2563EB'' \<and> hex_to_rgb (to_hex 37 99 235) = Inr (37, 99, 235)"
proof -
  have v: "valid_hex_color ''#2563EB''"
    by (simp add: valid_hex_color_def six_hex_def is_hex_def hex_digit_def)
  have h: "to_hex 37 99 235 = ''#2563EB''"
    by code_simp
  from hex_to_rgb_valid_roundtrip[of "''#2563EB''" 37 99 235] v h
  show ?thesis by simp
qed

text \<open>
  C10: the parser accepts strictly more than the strings \<open>#RRGGBB\<close>.  It removes every
  leading \<open>#\<close>, and whenever six hexadecimal digits (of either case) remain it returns
  the triple they denote; this covers every valid string, and also strings that are not
  valid, such as the digits alone or the digits after several \<open>#\<close>.
\<close>

theorem hex_to_rgb_accepts_more:
  "(six_hex (lstrip_hash s) \<longrightarrow> hex_to_rgb s = Inr (rgb_of_digits (lstrip_hash s)))
   \<and> (valid_hex_color s \<longrightarrow> six_hex (lstrip_hash s))
   \<and> (\<exists>t. \<not> valid_hex_color t \<and> six_hex (lstrip_hash t))"
proof (intro conjI impI)
  assume "six_hex (lstrip_hash s)"
  then show "hex_to_rgb s = Inr (rgb_of_digits (lstrip_hash s))"
    by (rule hex_to_rgb_six)
next
  assume "valid_hex_color s"
  then show "six_hex (lstrip_hash s)"
    using lstrip_hash_valid by simp
next
  have "\<not> valid_hex_color ''2563eb'' \<and> six_hex (lstrip_hash ''2563eb'')"
    by (simp add: valid_hex_color_def six_hex_def lstrip_hash_def is_hex_def hex_digit_def)
  then show "\<exists>t. \<not> valid_hex_color t \<and> six_hex (lstrip_hash t)" ..
qed

theorem hex_to_rgb_accepts_more_witness:
  "six_hex (lstrip_hash ''##2563eb'') \<and> \<not> valid_hex_color ''##2563eb''
   \<and> hex_to_rgb ''##2563eb'' = Inr (37, 99, 235)
   \<and> valid_hex_color ''#2563EB'' \<and> six_hex (lstrip_hash ''#2563EB'')"
proof -
  have a: "six_hex (lstrip_hash ''##2563eb'')"
    by (simp add: six_hex_def lstrip_hash_def is_hex_def hex_digit_def)
  have b: "\<not> valid_hex_color ''##2563eb''"
    by (simp add: valid_hex_color_def six_hex_def)
  have c: "rgb_of_digits (lstrip_hash ''##2563eb'') = (37, 99, 235)"
    by (simp add: rgb_of_digits_def lstrip_hash_def digit_val_def hex_digit_def)
  have v: "valid_hex_color ''#2563EB''"
    by (simp add: valid_hex_color_def six_hex_def is_hex_def hex_digit_def)
  from hex_to_rgb_accepts_more[of "''##2563eb''"] hex_to_rgb_accepts_more[of "''#2563EB''"] a b c v
  show ?thesis by simp
qed

section \<open>Properties of the rounding\<close>

lemma rne_of_int [simp]: "rne (of_int n) = n"
  by (simp add: rne_def)

lemma rne_lower: "\<lfloor>x\<rfloor> \<le> rne x"
  by (simp add: rne_def Let_def)

lemma rne_upper: "rne x \<le> \<lfloor>x\<rfloor> + 1"
  by (simp add: rne_def Let_def)

lemma rne_mono: "x \<le> y \<Longrightarrow> rne x \<le> rne y"
proof -
  assume xy: "x \<le> y"
  then have fl: "\<lfloor>x\<rfloor> \<le> \<lfloor>y\<rfloor>" by (rule floor_mono)
  show ?thesis
  proof (cases "\<lfloor>x\<rfloor> = \<lfloor>y\<rfloor>")
    case True
    with xy have "x - of_int \<lfloor>x\<rfloor> \<le> y - of_int \<lfloor>y\<rfloor>" by simp
    with True show ?thesis by (auto simp: rne_def Let_def)
  next
    case False
    with fl have "\<lfloor>x\<rfloor> + 1 \<le> \<lfloor>y\<rfloor>" by simp
    with rne_upper[of x] rne_lower[of y] show ?thesis by linarith
  qed
qed

lemma rne_le_int: "x \<le> of_int n \<Longrightarrow> rne x \<le> n"
  using rne_mono[of x "of_int n"] by simp

lemma rne_ge_int: "of_int n \<le> x \<Longrightarrow> n \<le> rne x"
  using rne_mono[of "of_int n" x] by simp

lemma pow2_le_of_int: "(2::int) ^ k \<le> n \<Longrightarrow> (2::rat) ^ k \<le> of_int n"
proof -
  assume "(2::int) ^ k \<le> n"
  then have "(of_int (2 ^ k) :: rat) \<le> of_int n" by (simp only: of_int_le_iff)
  then show ?thesis by simp
qed

lemma of_int_lt_pow2: "n < (2::int) ^ k \<Longrightarrow> (of_int n :: rat) + 1 \<le> 2 ^ k"
proof -
  assume "n < (2::int) ^ k"
  then have "n + 1 \<le> 2 ^ k" by simp
  then have "(of_int (n + 1) :: rat) \<le> of_int (2 ^ k)" by (simp only: of_int_le_iff)
  then show ?thesis by simp
qed

lemma ilog2_bounds:
  assumes "0 < x"
  shows "2 powi (ilog2 x) \<le> x \<and> x < 2 powi (ilog2 x + 1)"
proof (cases "1 \<le> x")
  case True
  define m where "m = \<lfloor>x\<rfloor>"
  from True have m: "0 < m" by (simp add: m_def)
  from bitlen_bounds[OF m] have lo: "2 ^ nat (bitlen m - 1) \<le> m" and hi: "m < 2 ^ nat (bitlen m)"
    by simp_all
  from m have b1: "1 \<le> bitlen m"
    using bitlen_eq_zero_iff[of m] bitlen_nonneg[of m] by linarith
  have il: "ilog2 x = bitlen m - 1" using True by (simp add: ilog2_def m_def)
  have mx: "of_int m \<le> x" "x < of_int m + 1" unfolding m_def by linarith+
  from pow2_le_of_int[OF lo] mx have "2 ^ nat (bitlen m - 1) \<le> x" by linarith
  then have A: "2 powi (ilog2 x) \<le> x"
    using b1 by (simp add: il power_int_def)
  from of_int_lt_pow2[OF hi] mx have "x < 2 ^ nat (bitlen m)" by linarith
  then have B: "x < 2 powi (ilog2 x + 1)"
    using b1 by (simp add: il power_int_def)
  from A B show ?thesis ..
next
  case False
  with assms have x1: "x < 1" by simp
  define y where "y = 1 / x"
  define n where "n = \<lceil>y\<rceil> - 1"
  from assms x1 have y1: "1 < y" by (simp add: y_def)
  then have n: "0 < n" unfolding n_def by linarith
  have ny: "of_int n < y" unfolding n_def by linarith
  have yn: "y \<le> of_int n + 1" unfolding n_def by simp
  from bitlen_bounds[OF n] have lo: "2 ^ nat (bitlen n - 1) \<le> n" and hi: "n < 2 ^ nat (bitlen n)"
    by simp_all
  from n have b1: "1 \<le> bitlen n"
    using bitlen_eq_zero_iff[of n] bitlen_nonneg[of n] by linarith
  have il: "ilog2 x = - bitlen n" using False by (simp add: ilog2_def n_def y_def)
  from of_int_lt_pow2[OF hi] yn have "y \<le> 2 ^ nat (bitlen n)" by linarith
  then have "1 / x \<le> 2 ^ nat (bitlen n)" by (simp add: y_def)
  then have "1 \<le> 2 ^ nat (bitlen n) * x"
    using assms by (simp add: field_simps)
  then have A: "2 powi (ilog2 x) \<le> x"
    unfolding il using b1 by (simp add: power_int_def field_simps)
  from pow2_le_of_int[OF lo] ny have "2 ^ nat (bitlen n - 1) < y" by linarith
  then have "2 ^ nat (bitlen n - 1) < 1 / x" by (simp add: y_def)
  then have "2 ^ nat (bitlen n - 1) * x < 1"
    using assms by (simp add: field_simps)
  then have B: "x < 2 powi (ilog2 x + 1)"
    unfolding il using b1 x1 by (simp add: power_int_def field_simps)
  from A B show ?thesis ..
qed


lemma ilog2_less: "0 < x \<Longrightarrow> x < 2 powi k \<Longrightarrow> ilog2 x < k"
proof (rule ccontr)
  assume x: "0 < x" and lt: "x < 2 powi k" and "\<not> ilog2 x < k"
  then have "k \<le> ilog2 x" by simp
  then have "(2::rat) powi k \<le> 2 powi (ilog2 x)" by (rule power_int_increasing) simp
  with ilog2_bounds[OF x] lt show False by linarith
qed



lemma fl_zero [simp]: "fl 0 = 0"
  by (simp add: fl_def)

lemma fl_pos_eq:
  "0 < x \<Longrightarrow> fl x = of_int (rne (x / 2 powi (ulp_exp x))) * 2 powi (ulp_exp x)"
  by (simp add: fl_def Let_def)

lemma fl_minus: "fl (- x) = - fl x"
  by (simp add: fl_def Let_def sgn_minus)

lemma grid_div:
  assumes "e \<le> k"
  shows "of_int m * 2 powi k / 2 powi e = (of_int (m * 2 ^ nat (k - e)) :: rat)"
proof -
  have "(2::rat) powi k / 2 powi e = 2 powi (k - e)"
    by (simp add: power_int_diff)
  also have "\<dots> = 2 ^ nat (k - e)"
    using assms by (simp add: power_int_def)
  finally have "of_int m * ((2::rat) powi k / 2 powi e) = of_int m * 2 ^ nat (k - e)"
    by (simp only:)
  then show ?thesis by simp
qed

lemma fl_le_grid:
  assumes x: "0 < x" and k: "ulp_exp x \<le> k" and le: "x \<le> of_int m * 2 powi k"
  shows "fl x \<le> of_int m * 2 powi k"
proof -
  let ?u = "(2::rat) powi (ulp_exp x)"
  have u: "0 < ?u" by simp
  from le u have "x / ?u \<le> of_int m * 2 powi k / ?u"
    by (simp add: divide_right_mono)
  then have "x / ?u \<le> of_int (m * 2 ^ nat (k - ulp_exp x))"
    by (simp only: grid_div[OF k])
  then have "rne (x / ?u) \<le> m * 2 ^ nat (k - ulp_exp x)"
    by (rule rne_le_int)
  then have "(of_int (rne (x / ?u)) :: rat) \<le> of_int (m * 2 ^ nat (k - ulp_exp x))"
    by (simp only: of_int_le_iff)
  then have "of_int (rne (x / ?u)) * ?u \<le> of_int (m * 2 ^ nat (k - ulp_exp x)) * ?u"
    using u by (simp only: mult_le_cancel_right_pos)
  also have "of_int (m * 2 ^ nat (k - ulp_exp x)) * ?u = of_int m * 2 powi k / ?u * ?u"
    by (simp only: grid_div[OF k])
  also have "\<dots> = of_int m * 2 powi k" by simp
  finally show ?thesis by (simp only: fl_pos_eq[OF x])
qed

lemma fl_ge_grid:
  assumes x: "0 < x" and k: "ulp_exp x \<le> k" and le: "of_int m * 2 powi k \<le> x"
  shows "of_int m * 2 powi k \<le> fl x"
proof -
  let ?u = "(2::rat) powi (ulp_exp x)"
  have u: "0 < ?u" by simp
  from le u have "of_int m * 2 powi k / ?u \<le> x / ?u"
    by (simp add: divide_right_mono)
  then have "of_int (m * 2 ^ nat (k - ulp_exp x)) \<le> x / ?u"
    by (simp only: grid_div[OF k])
  then have "m * 2 ^ nat (k - ulp_exp x) \<le> rne (x / ?u)"
    by (rule rne_ge_int)
  then have "(of_int (m * 2 ^ nat (k - ulp_exp x)) :: rat) \<le> of_int (rne (x / ?u))"
    by (simp only: of_int_le_iff)
  then have "of_int (m * 2 ^ nat (k - ulp_exp x)) * ?u \<le> of_int (rne (x / ?u)) * ?u"
    using u by (simp only: mult_le_cancel_right_pos)
  moreover have "of_int (m * 2 ^ nat (k - ulp_exp x)) * ?u = of_int m * 2 powi k / ?u * ?u"
    by (simp only: grid_div[OF k])
  moreover have "of_int m * 2 powi k / ?u * ?u = of_int m * 2 powi k" by simp
  ultimately show ?thesis by (simp only: fl_pos_eq[OF x])
qed




lemma fl_exact_pos:
  assumes m: "0 < m" "m < 2 ^ 53" and k: "- 1074 \<le> k"
  shows "fl (of_int m * 2 powi k) = of_int m * 2 powi k"
proof -
  let ?z = "of_int m * (2::rat) powi k"
  have z: "0 < ?z" using m by simp
  from m(2) have "(of_int m :: rat) + 1 \<le> 2 ^ 53" by (rule of_int_lt_pow2)
  then have "(of_int m :: rat) < 2 powi 53" by simp
  then have "?z < 2 powi 53 * 2 powi k" by simp
  also have "\<dots> = 2 powi (53 + k)" by (simp add: power_int_add)
  finally have "ilog2 ?z < 53 + k" using z ilog2_less by blast
  with k have e: "ulp_exp ?z \<le> k" by (simp add: ulp_exp_def)
  from fl_le_grid[OF z e, of m] fl_ge_grid[OF z e, of m] show ?thesis by simp
qed

lemma fl_exact:
  assumes m: "\<bar>m\<bar> < 2 ^ 53" and k: "- 1074 \<le> k"
  shows "fl (of_int m * 2 powi k) = of_int m * 2 powi k"
proof -
  consider "0 < m" | "m = 0" | "m < 0" by linarith
  then show ?thesis
  proof cases
    case 1
    with m k show ?thesis by (simp add: fl_exact_pos)
  next
    case 2
    then show ?thesis by simp
  next
    case 3
    with m have "0 < - m" "- m < 2 ^ 53" by simp_all
    from fl_exact_pos[OF this k] have "fl (- (of_int m * 2 powi k)) = - (of_int m * 2 powi k)"
      by simp
    then show ?thesis by (simp only: fl_minus neg_equal_iff_equal)
  qed
qed

lemma fl_of_int: "\<bar>n\<bar> < 2 ^ 53 \<Longrightarrow> fl (of_int n) = of_int n"
  using fl_exact[of n 0] by simp

section \<open>Properties of one gradient channel\<close>



lemma fl_one [simp]: "fl 1 = 1"
  using fl_of_int[of 1] by simp



lemma true_div_zero [simp]: "true_div 0 w = 0"
  by (simp add: true_div_def)













section \<open>The horizontal gradient\<close>

lemma bind_Inr [simp]: "bind (Inr v) f = f v"
  by (simp add: bind_def)

lemma bind_Inl [simp]: "bind (Inl e) f = Inl e"
  by (simp add: bind_def)

lemma bind_eq_Inr: "bind m f = Inr r \<longleftrightarrow> (\<exists>v. m = Inr v \<and> f v = Inr r)"
  by (cases m) simp_all


lemma paint_simps [simp]:
  "im_width (paint cover p c img) = im_width img"
  "im_height (paint cover p c img) = im_height img"
  "im_mode (paint cover p c img) = im_mode img"
  "im_calls (paint cover p c img) = im_calls img @ [c]"
  "inside (paint cover p c img) x y = inside img x y"
  "im_pix (paint cover p c img) x y =
     (if inside img x y \<and> cover x y then p else im_pix img x y)"
  by (simp_all add: paint_def inside_def)

lemma draw_line_simps [simp]:
  "im_width (draw_line env p0 p1 f w img) = im_width img"
  "im_height (draw_line env p0 p1 f w img) = im_height img"
  "im_mode (draw_line env p0 p1 f w img) = im_mode img"
  "im_calls (draw_line env p0 p1 f w img) = im_calls img @ [Line p0 p1 f w]"
  "inside (draw_line env p0 p1 f w img) x y = inside img x y"
  by (simp_all add: draw_line_def)

lemma draw_line_pix:
  "im_pix (draw_line env p0 p1 f w img) x y =
     (if inside img x y \<and> line_cover env p0 p1 w x y then ink (im_mode img) f
      else im_pix img x y)"
  by (simp add: draw_line_def)


lemma gradient_column_eq:
  "gradient_column env width height c1 c2 x img =
     draw_line env (x, 0) (x, height) (column_ink c1 c2 x width) 0 img"
  by (cases c1; cases c2) (simp add: gradient_column_def column_ink_def gradient_rgb_def Let_def)

lemma fold_gradient_column_shape:
  "im_width (fold (gradient_column env width height c1 c2) xs img) = im_width img
    \<and> im_height (fold (gradient_column env width height c1 c2) xs img) = im_height img
    \<and> im_mode (fold (gradient_column env width height c1 c2) xs img) = im_mode img
    \<and> im_calls (fold (gradient_column env width height c1 c2) xs img) =
        im_calls img @ map (\<lambda>x. Line (x, 0) (x, height) (column_ink c1 c2 x width) 0) xs"
  by (induction xs arbitrary: img) (simp_all add: gradient_column_eq)



lemma image_new_Inr:
  "0 \<le> w \<Longrightarrow> 0 \<le> h \<Longrightarrow>
   image_new m w h p = Inr \<lparr>im_mode = m, im_width = w, im_height = h,
                             im_pix = (\<lambda>x y. p), im_calls = [New m w h]\<rparr>"
  by (simp add: image_new_def)

lemma create_gradient_horizontal:
  assumes "0 \<le> width" "0 \<le> height"
    and "hex_to_rgb color1 = Inr c1" "hex_to_rgb color2 = Inr c2"
  shows "create_gradient env width height color1 color2 ''horizontal'' =
     Inr (fold (gradient_column env width height c1 c2) (py_range width)
            (blank RGB width height (0, 0, 0, 255)))"
  using assms by (simp add: create_gradient_def image_new_Inr blank_def)

























section \<open>Fonts, the order of the assembly and the corner accents\<close>

lemma draw_ellipse_simps [simp]:
  "im_width (draw_ellipse env bbox f img) = im_width img"
  "im_height (draw_ellipse env bbox f img) = im_height img"
  "im_mode (draw_ellipse env bbox f img) = im_mode img"
  "im_calls (draw_ellipse env bbox f img) = im_calls img @ [Ellipse bbox f]"
  "inside (draw_ellipse env bbox f img) x y = inside img x y"
  by (simp_all add: draw_ellipse_def)

lemma draw_text_simps [simp]:
  "im_width (draw_text env xy t f fnt img) = im_width img"
  "im_height (draw_text env xy t f fnt img) = im_height img"
  "im_mode (draw_text env xy t f fnt img) = im_mode img"
  "im_calls (draw_text env xy t f fnt img) = im_calls img @ [Text xy t f fnt]"
  "inside (draw_text env xy t f fnt img) x y = inside img x y"
  by (simp_all add: draw_text_def inside_def)

lemma convert_simps [simp]:
  "im_width (convert m img) = im_width img"
  "im_height (convert m img) = im_height img"
  "im_mode (convert m img) = m"
  "im_calls (convert m img) = im_calls img @ [Convert m]"
  "inside (convert m img) x y = inside img x y"
  by (simp_all add: convert_def inside_def)

lemma alpha_composite_Inr:
  assumes "alpha_composite dst src = Inr img"
  shows "im_width img = im_width dst" "im_height img = im_height dst" "im_mode img = RGBA"
    "im_calls img = im_calls dst @ [Composite]"
  using assms by (auto simp: alpha_composite_def split: if_splits)

lemma centered_text_Inr:
  assumes "centered_text env t fnt y f img = Inr img'"
  shows "im_width img' = im_width img" "im_height img' = im_height img"
    "im_mode img' = im_mode img"
    "\<exists>xy. im_calls img' = im_calls img @ [Text xy t f fnt]"
  using assms by (auto simp: centered_text_def bind_eq_Inr)

lemma fold_decorative_dot:
  "im_width (fold (decorative_dot env w h) is img) = im_width img
   \<and> im_height (fold (decorative_dot env w h) is img) = im_height img
   \<and> im_mode (fold (decorative_dot env w h) is img) = im_mode img
   \<and> map phase_of (im_calls (fold (decorative_dot env w h) is img)) =
       map phase_of (im_calls img) @ replicate (length is) Decoration"
  by (induction "is" arbitrary: img)
     (simp_all add: decorative_dot_def Let_def phase_of_def replicate_append_same)

lemma add_decorative_elements_Inr:
  assumes "add_decorative_elements env w h img = Inr img'"
  shows "im_width img' = im_width img" "im_height img' = im_height img"
    "im_mode img' = im_mode img"
    "map phase_of (im_calls img') = map phase_of (im_calls img) @ replicate 22 Decoration"
  using assms fold_decorative_dot[of env w h "py_range 20" img]
  by (auto simp: add_decorative_elements_def Let_def phase_of_def py_range_def
      replicate_append_same numeral_eq_Suc split: if_splits)

lemma create_gradient_Inr:
  assumes "create_gradient env w h c1 c2 ''horizontal'' = Inr img"
  shows "im_width img = w" "im_height img = h" "im_mode img = RGB" "0 \<le> w" "0 \<le> h"
    "map phase_of (im_calls img) = replicate (Suc (nat w)) Gradient"
proof -
  from assms obtain a b where
    i: "image_new RGB w h (0, 0, 0, 255) = Inr (blank RGB w h (0, 0, 0, 255))"
    and wh: "0 \<le> w" "0 \<le> h"
    and img: "img = fold (gradient_column env w h a b) (py_range w) (blank RGB w h (0, 0, 0, 255))"
    by (auto simp: create_gradient_def bind_eq_Inr image_new_def blank_def split: if_splits)
  note s = fold_gradient_column_shape[of env w h a b "py_range w" "blank RGB w h (0, 0, 0, 255)"]
  show "im_width img = w" "im_height img = h" "im_mode img = RGB" "0 \<le> w" "0 \<le> h"
    using s wh by (simp_all add: img blank_def)
  show "map phase_of (im_calls img) = replicate (Suc (nat w)) Gradient"
    using s by (simp add: img blank_def phase_of_def py_range_def comp_def map_replicate_const)
qed

lemma fold_accents:
  "im_width (fold (\<lambda>seg. draw_line env (fst seg) (snd seg) f 4) segs img) = im_width img
   \<and> im_height (fold (\<lambda>seg. draw_line env (fst seg) (snd seg) f 4) segs img) = im_height img
   \<and> im_mode (fold (\<lambda>seg. draw_line env (fst seg) (snd seg) f 4) segs img) = im_mode img
   \<and> im_calls (fold (\<lambda>seg. draw_line env (fst seg) (snd seg) f 4) segs img) =
       im_calls img @ map (\<lambda>seg. Line (fst seg) (snd seg) f 4) segs"
  by (induction segs arbitrary: img) simp_all

lemma fold_accents_pix:
  "im_pix (fold (\<lambda>seg. draw_line env (fst seg) (snd seg) f 4) segs img) x y =
     (if inside img x y \<and> (\<exists>seg \<in> set segs. line_cover env (fst seg) (snd seg) 4 x y)
      then ink (im_mode img) f else im_pix img x y)"
proof (induction segs arbitrary: img)
  case Nil
  show ?case by simp
next
  case (Cons s segs)
  show ?case
    by (simp add: Cons.IH draw_line_pix) blast
qed

lemma corner_accents_simps:
  "im_width (corner_accents env img) = im_width img"
  "im_height (corner_accents env img) = im_height img"
  "im_mode (corner_accents env img) = im_mode img"
  "im_calls (corner_accents env img) =
     im_calls img @ map (\<lambda>seg. Line (fst seg) (snd seg) (Rgba 255 255 255 100) 4) accent_segments"
  using fold_accents[of env "Rgba 255 255 255 100" accent_segments img]
  by (simp_all add: corner_accents_def)

text \<open>The steps of \<open>compose_og_image\<close>, when it returns an image.\<close>

lemma compose_og_image_Inr:
  assumes "compose_og_image env config = Inr img"
  obtains img_g img_d overlay img_c font_title font_subtitle font_tagline font_icon font_brand
    i1 i2 i3 i4 i5
  where "create_gradient env WIDTH HEIGHT (fst (gradient config)) (snd (gradient config))
             ''horizontal'' = Inr img_g"
    and "add_decorative_elements env WIDTH HEIGHT img_g = Inr img_d"
    and "image_new RGBA WIDTH HEIGHT (ink RGBA (Rgba 0 0 0 60)) = Inr overlay"
    and "alpha_composite (convert RGBA img_d) overlay = Inr img_c"
    and "get_font env 72 True = Inr font_title"
    and "get_font env 42 True = Inr font_subtitle"
    and "get_font env 28 False = Inr font_tagline"
    and "get_font env 60 True = Inr font_icon"
    and "get_font env 24 True = Inr font_brand"
    and "centered_text env (icon config) font_icon (HEIGHT div 2 - 150) White img_c = Inr i1"
    and "centered_text env (title config) font_title (HEIGHT div 2 - 60) White i1 = Inr i2"
    and "centered_text env (subtitle config) font_subtitle (HEIGHT div 2 + 30)
           (Rgba 255 255 255 220) i2 = Inr i3"
    and "centered_text env (tagline config) font_tagline (HEIGHT div 2 + 100)
           (Rgba 255 255 255 180) i3 = Inr i4"
    and "centered_text env brand_text font_brand (HEIGHT - 50) (Rgba 255 255 255 150) i4 = Inr i5"
    and "img = corner_accents env i5"
  using assms unfolding compose_og_image_def bind_eq_Inr Let_def
  by (elim exE conjE) auto



lemma try_fonts_OSError:
  "list_all (\<lambda>name. truetype env name sz = Some OSError) names \<Longrightarrow>
     try_fonts env sz names = Inr DefaultFont"
  by (induction names) auto




lemma remdups_adj_replicate_append:
  "x \<noteq> y \<Longrightarrow> remdups_adj (replicate (Suc n) x @ y # ys) = x # remdups_adj (y # ys)"
  by (induction n) simp_all

lemma remdups_adj_replicate_more:
  "x \<noteq> y \<Longrightarrow> remdups_adj (replicate (Suc n) x @ replicate (Suc m) y @ zs)
     = x # remdups_adj (replicate (Suc m) y @ zs)"
  using remdups_adj_replicate_append[of x y n "replicate m y @ zs"] by simp

lemma remdups_adj_replicate_two:
  "x \<noteq> y \<Longrightarrow> remdups_adj (replicate (Suc n) x @ replicate (Suc m) y) = [x, y]"
  using remdups_adj_replicate_more[of x y n m "[]"] remdups_adj_replicate[of "Suc m" y]
  by simp

lemma length_accent_segments: "length accent_segments = 8"
  by (simp add: accent_segments_def)

lemma compose_og_image_phases:
  assumes "compose_og_image env config = Inr img"
  shows "map phase_of (im_calls img) =
     replicate 1201 Gradient @ replicate 22 Decoration @ replicate 2 Contrast
     @ replicate 5 Texts @ replicate 8 Accents"
proof -
  from assms obtain img_g img_d overlay img_c ft fs fg fi fb i1 i2 i3 i4 i5 where
    g: "create_gradient env WIDTH HEIGHT (fst (gradient config)) (snd (gradient config))
             ''horizontal'' = Inr img_g"
    and d: "add_decorative_elements env WIDTH HEIGHT img_g = Inr img_d"
    and c: "alpha_composite (convert RGBA img_d) overlay = Inr img_c"
    and t1: "centered_text env (icon config) fi (HEIGHT div 2 - 150) White img_c = Inr i1"
    and t2: "centered_text env (title config) ft (HEIGHT div 2 - 60) White i1 = Inr i2"
    and t3: "centered_text env (subtitle config) fs (HEIGHT div 2 + 30)
           (Rgba 255 255 255 220) i2 = Inr i3"
    and t4: "centered_text env (tagline config) fg (HEIGHT div 2 + 100)
           (Rgba 255 255 255 180) i3 = Inr i4"
    and t5: "centered_text env brand_text fb (HEIGHT - 50) (Rgba 255 255 255 150) i4 = Inr i5"
    and img: "img = corner_accents env i5"
    by (rule compose_og_image_Inr)
  have pg: "map phase_of (im_calls img_g) = replicate 1201 Gradient"
    using create_gradient_Inr(6)[OF g] by (simp add: WIDTH_def)
  have pd: "map phase_of (im_calls img_d) = replicate 1201 Gradient @ replicate 22 Decoration"
    using add_decorative_elements_Inr(4)[OF d] pg by simp
  have pc: "map phase_of (im_calls img_c) =
      replicate 1201 Gradient @ replicate 22 Decoration @ replicate 2 Contrast"
    using alpha_composite_Inr(4)[OF c] pd by (simp add: phase_of_def numeral_2_eq_2)
  have tx: "\<And>t fnt y f a b. centered_text env t fnt y f a = Inr b \<Longrightarrow>
      map phase_of (im_calls b) = map phase_of (im_calls a) @ [Texts]"
    using centered_text_Inr(4) by (fastforce simp: phase_of_def)
  have p5: "map phase_of (im_calls i5) =
      replicate 1201 Gradient @ replicate 22 Decoration @ replicate 2 Contrast
      @ replicate 5 Texts"
    by (simp add: tx[OF t5] tx[OF t4] tx[OF t3] tx[OF t2] tx[OF t1] pc numeral_eq_Suc)
  have acc: "map phase_of (map (\<lambda>seg. Line (fst seg) (snd seg) (Rgba 255 255 255 100) 4)
        accent_segments) = replicate 8 Accents"
    by (simp add: accent_segments_def phase_of_def numeral_eq_Suc)
  show ?thesis
    unfolding img corner_accents_simps map_append p5 acc by simp
qed

lemma phases_compose:
  assumes "compose_og_image env config = Inr img"
  shows "phases img = [Gradient, Decoration, Contrast, Texts, Accents]"
proof -
  have n: "(1201::nat) = Suc 1200" "(22::nat) = Suc 21" "(2::nat) = Suc 1" "(5::nat) = Suc 4"
    "(8::nat) = Suc 7"
    by simp_all
  have "remdups_adj (replicate (Suc 1200) Gradient @ replicate (Suc 21) Decoration
      @ replicate (Suc 1) Contrast @ replicate (Suc 4) Texts @ replicate (Suc 7) Accents)
      = [Gradient, Decoration, Contrast, Texts, Accents]"
    by (simp only: remdups_adj_replicate_more remdups_adj_replicate_two
        phase.distinct not_False_eq_True)
  then show ?thesis
    unfolding phases_def compose_og_image_phases[OF assms] n .
qed

text \<open>When the drawing of an image succeeds.\<close>

lemma centered_text_total:
  assumes "textbbox env fnt t = Inr bb"
  shows "\<exists>img'. centered_text env t fnt y f img = Inr img'"
  using assms by (cases bb) (simp add: centered_text_def)

lemma compose_og_image_total:
  assumes c: "hex_to_rgb (fst (gradient config)) = Inr c1"
             "hex_to_rgb (snd (gradient config)) = Inr c2"
    and f: "\<And>sz b. \<exists>fnt. get_font env sz b = Inr fnt"
    and t: "\<And>fnt t. \<exists>bb. textbbox env fnt t = Inr bb"
  shows "\<exists>img. compose_og_image env config = Inr img"
proof -
  define img_g where "img_g = fold (gradient_column env WIDTH HEIGHT c1 c2) (py_range WIDTH)
            (blank RGB WIDTH HEIGHT (0, 0, 0, 255))"
  have g: "create_gradient env WIDTH HEIGHT (fst (gradient config)) (snd (gradient config))
      ''horizontal'' = Inr img_g"
    unfolding img_g_def using c by (intro create_gradient_horizontal) (simp_all add: WIDTH_def HEIGHT_def)
  obtain img_d where d: "add_decorative_elements env WIDTH HEIGHT img_g = Inr img_d"
    by (simp add: add_decorative_elements_def WIDTH_def HEIGHT_def Let_def)
  have o: "image_new RGBA WIDTH HEIGHT (ink RGBA (Rgba 0 0 0 60)) =
      Inr (blank RGBA WIDTH HEIGHT (ink RGBA (Rgba 0 0 0 60)))"
    by (simp add: image_new_def blank_def WIDTH_def HEIGHT_def)
  have sz: "im_width img_d = WIDTH" "im_height img_d = HEIGHT"
    using add_decorative_elements_Inr(1,2)[OF d] create_gradient_Inr(1,2)[OF g] by simp_all
  obtain img_c where cc: "alpha_composite (convert RGBA img_d)
      (blank RGBA WIDTH HEIGHT (ink RGBA (Rgba 0 0 0 60))) = Inr img_c"
    using sz by (simp add: alpha_composite_def blank_def)
  obtain ft where ft: "get_font env 72 True = Inr ft" using f by blast
  obtain fs where fs: "get_font env 42 True = Inr fs" using f by blast
  obtain fg where fg: "get_font env 28 False = Inr fg" using f by blast
  obtain fi where fi: "get_font env 60 True = Inr fi" using f by blast
  obtain fb where fb: "get_font env 24 True = Inr fb" using f by blast
  have ct: "\<And>t fnt y f img. \<exists>img'. centered_text env t fnt y f img = Inr img'"
    using t centered_text_total by blast
  obtain i1 where i1: "centered_text env (icon config) fi (HEIGHT div 2 - 150) White img_c = Inr i1"
    using ct by blast
  obtain i2 where i2: "centered_text env (title config) ft (HEIGHT div 2 - 60) White i1 = Inr i2"
    using ct by blast
  obtain i3 where i3: "centered_text env (subtitle config) fs (HEIGHT div 2 + 30)
           (Rgba 255 255 255 220) i2 = Inr i3"
    using ct by blast
  obtain i4 where i4: "centered_text env (tagline config) fg (HEIGHT div 2 + 100)
           (Rgba 255 255 255 180) i3 = Inr i4"
    using ct by blast
  obtain i5 where i5: "centered_text env brand_text fb (HEIGHT - 50) (Rgba 255 255 255 150) i4 = Inr i5"
    using ct by blast
  show ?thesis
    by (simp add: compose_og_image_def g d o cc ft fs fg fi fb i1 i2 i3 i4 i5 Let_def)
qed

lemma compose_og_image_shape:
  assumes "compose_og_image env config = Inr img"
  shows "im_width img = WIDTH" "im_height img = HEIGHT" "im_mode img = RGBA"
proof -
  from assms obtain img_g img_d overlay img_c ft fs fg fi fb i1 i2 i3 i4 i5 where
    g: "create_gradient env WIDTH HEIGHT (fst (gradient config)) (snd (gradient config))
             ''horizontal'' = Inr img_g"
    and d: "add_decorative_elements env WIDTH HEIGHT img_g = Inr img_d"
    and c: "alpha_composite (convert RGBA img_d) overlay = Inr img_c"
    and t1: "centered_text env (icon config) fi (HEIGHT div 2 - 150) White img_c = Inr i1"
    and t2: "centered_text env (title config) ft (HEIGHT div 2 - 60) White i1 = Inr i2"
    and t3: "centered_text env (subtitle config) fs (HEIGHT div 2 + 30)
           (Rgba 255 255 255 220) i2 = Inr i3"
    and t4: "centered_text env (tagline config) fg (HEIGHT div 2 + 100)
           (Rgba 255 255 255 180) i3 = Inr i4"
    and t5: "centered_text env brand_text fb (HEIGHT - 50) (Rgba 255 255 255 150) i4 = Inr i5"
    and img: "img = corner_accents env i5"
    by (rule compose_og_image_Inr)
  have "im_width img_c = WIDTH" "im_height img_c = HEIGHT" "im_mode img_c = RGBA"
    using alpha_composite_Inr(1,2,3)[OF c] add_decorative_elements_Inr(1,2)[OF d]
      create_gradient_Inr(1,2)[OF g] by simp_all
  then have "im_width i5 = WIDTH" "im_height i5 = HEIGHT" "im_mode i5 = RGBA"
    using centered_text_Inr(1,2,3)[OF t1] centered_text_Inr(1,2,3)[OF t2]
      centered_text_Inr(1,2,3)[OF t3] centered_text_Inr(1,2,3)[OF t4]
      centered_text_Inr(1,2,3)[OF t5] by simp_all
  then show "im_width img = WIDTH" "im_height img = HEIGHT" "im_mode img = RGBA"
    by (simp_all add: img corner_accents_simps)
qed

lemma accent_cover:
  assumes "seg \<in> set accent_segments" "on_segment seg x y"
  shows "line_cover env (fst seg) (snd seg) 4 x y"
  using assms
  by (auto simp: accent_segments_def on_segment_def line_cover_def WIDTH_def HEIGHT_def)

lemma accent_geometry:
  "length accent_segments = 8"
  "list_all (\<lambda>seg. seg_length seg = 80 \<and> axis_aligned seg) accent_segments"
  "list_all (\<lambda>c. length (filter (at_corner c) accent_segments) = 2)
     [(0, 0), (WIDTH - 1, 0), (0, HEIGHT - 1), (WIDTH - 1, HEIGHT - 1)]"
  by (simp_all add: accent_segments_def seg_length_def axis_aligned_def at_corner_def
      WIDTH_def HEIGHT_def)

lemma corner_accents_pix:
  assumes "seg \<in> set accent_segments" "on_segment seg x y" "inside img x y"
  shows "im_pix (corner_accents env img) x y = ink (im_mode img) (Rgba 255 255 255 100)"
  using assms accent_cover[OF assms(1,2), of env]
  unfolding corner_accents_def Let_def fold_accents_pix by auto

lemma formats_valid:
  "(k, config) \<in> set FORMATS \<Longrightarrow>
     valid_hex_color (fst (gradient config)) \<and> valid_hex_color (snd (gradient config))"
  by (auto simp: FORMATS_def valid_hex_color_def six_hex_def is_hex_def hex_digit_def)

lemma valid_hex_color_parses: "valid_hex_color c \<Longrightarrow> \<exists>rgb. hex_to_rgb c = Inr rgb"
  using hex_to_rgb_six lstrip_hash_valid by metis

lemma get_font_bare [simp]: "get_font bare_env sz b = Inr DefaultFont"
  by (simp add: get_font_def font_names_def bare_env_def)

lemma textbbox_bare [simp]: "textbbox bare_env fnt t = Inr (0, 0, 6 * int (length t), 11)"
  by (simp add: bare_env_def)

lemma compose_bare:
  assumes "(k, config) \<in> set FORMATS"
  shows "\<exists>img. compose_og_image bare_env config = Inr img"
proof -
  from formats_valid[OF assms] valid_hex_color_parses obtain c1 c2 where
    "hex_to_rgb (fst (gradient config)) = Inr c1" "hex_to_rgb (snd (gradient config)) = Inr c2"
    by blast
  then show ?thesis
    by (rule compose_og_image_total) simp_all
qed

lemma map_of_FORMATS:
  "map_of FORMATS k = Some config \<Longrightarrow> (k, config) \<in> set FORMATS"
  by (rule map_of_SomeD)

text \<open>
  C5 (as amended): for each FormatSpec the library calls of the image assembly come in
  this order: the horizontal gradient (the new canvas and one line per column), the
  decorative dots and the two court lines, the dark contrast layer (the conversion to
  \<open>RGBA\<close> and the composite), the five texts (icon, title, subtitle, tagline,
  watermark), and last the eight corner accent lines.
\<close>

theorem image_assembly_order:
  assumes "compose_og_image env config = Inr img"
  shows "map phase_of (im_calls img) =
           replicate 1201 Gradient @ replicate 22 Decoration @ replicate 2 Contrast
           @ replicate 5 Texts @ replicate 8 Accents
       \<and> phases img = [Gradient, Decoration, Contrast, Texts, Accents]"
  using compose_og_image_phases[OF assms] phases_compose[OF assms] by simp

theorem image_assembly_order_witness:
  "og_result bare_env ''main'' phases = Inr [Gradient, Decoration, Contrast, Texts, Accents]"
proof -
  obtain config where m: "map_of FORMATS ''main'' = Some config"
    by (simp add: FORMATS_def)
  then have "(''main'', config) \<in> set FORMATS"
    by (rule map_of_SomeD)
  from compose_bare[OF this] obtain img where
    img: "compose_og_image bare_env config = Inr img" ..
  from image_assembly_order[OF img] show ?thesis
    by (simp add: og_result_def m img)
qed

text \<open>
  C5 as stated fails: the claim puts the contrast layer before the decorative patterns
  and the corner accents before the texts; in the image of the key \<open>americano\<close> the
  decoration comes before the contrast layer and the accents come after the texts.
\<close>

theorem image_assembly_order_counterexample:
  "og_result bare_env ''americano'' phases = Inr [Gradient, Decoration, Contrast, Texts, Accents]
   \<and> [Gradient, Decoration, Contrast, Texts, Accents] \<noteq> [Gradient, Contrast, Decoration, Accents, Texts]
   \<and> [Gradient, Decoration, Contrast, Texts, Accents] \<noteq> [Gradient, Contrast, Accents, Decoration, Texts]"
proof -
  obtain config where m: "map_of FORMATS ''americano'' = Some config"
    by (simp add: FORMATS_def)
  then have "(''americano'', config) \<in> set FORMATS"
    by (rule map_of_SomeD)
  from compose_bare[OF this] obtain img where
    img: "compose_og_image bare_env config = Inr img" ..
  from phases_compose[OF img] show ?thesis
    by (simp add: og_result_def m img)
qed

text \<open>
  C6: every image is drawn with exactly eight corner accent lines, the last eight calls,
  each 80 pixels long along an edge of the canvas and of width 4, two at each corner.
  They are not translucent in the saved image: the lines are drawn with the fill
  \<open>(255, 255, 255, 100)\<close> on an \<open>RGBA\<close> image, where the ink replaces the pixel, and the
  conversion to \<open>RGB\<close> drops the alpha, so every canvas pixel on a segment is saved as
  \<open>(255, 255, 255)\<close>, whatever was drawn below it.
\<close>

theorem corner_accents_opaque:
  assumes "compose_og_image env config = Inr img"
  shows "drop 1230 (im_calls img) =
           map (\<lambda>seg. Line (fst seg) (snd seg) (Rgba 255 255 255 100) 4) accent_segments
       \<and> length (im_calls img) = 1238
       \<and> length accent_segments = 8
       \<and> list_all (\<lambda>seg. seg_length seg = 80 \<and> axis_aligned seg) accent_segments
       \<and> list_all (\<lambda>c. length (filter (at_corner c) accent_segments) = 2)
           [(0, 0), (WIDTH - 1, 0), (0, HEIGHT - 1), (WIDTH - 1, HEIGHT - 1)]
       \<and> (\<forall>seg x y. seg \<in> set accent_segments \<and> on_segment seg x y
              \<and> 0 \<le> x \<and> x < WIDTH \<and> 0 \<le> y \<and> y < HEIGHT \<longrightarrow>
            im_pix img x y = (255, 255, 255, 100)
            \<and> rgb_at (convert RGB img) x y = (255, 255, 255))"
proof -
  from assms obtain i5 where i5: "compose_og_image env config = Inr (corner_accents env i5)"
    and img: "img = corner_accents env i5"
    by (auto elim: compose_og_image_Inr)
  have sh: "im_width i5 = WIDTH" "im_height i5 = HEIGHT" "im_mode i5 = RGBA"
    using compose_og_image_shape[OF i5] by (simp_all add: corner_accents_simps)
  have len: "length (im_calls img) = 1238"
    using arg_cong[OF compose_og_image_phases[OF assms], of length] by simp
  then have l5: "length (im_calls i5) = 1230"
    by (simp add: img corner_accents_simps accent_geometry(1))
  have calls: "drop 1230 (im_calls img) =
           map (\<lambda>seg. Line (fst seg) (snd seg) (Rgba 255 255 255 100) 4) accent_segments"
    by (simp add: img corner_accents_simps l5)
  have pix: "\<forall>seg x y. seg \<in> set accent_segments \<and> on_segment seg x y
              \<and> 0 \<le> x \<and> x < WIDTH \<and> 0 \<le> y \<and> y < HEIGHT \<longrightarrow>
            im_pix img x y = (255, 255, 255, 100)
            \<and> rgb_at (convert RGB img) x y = (255, 255, 255)"
  proof (intro allI impI)
    fix seg x y
    assume h: "seg \<in> set accent_segments \<and> on_segment seg x y
              \<and> 0 \<le> x \<and> x < WIDTH \<and> 0 \<le> y \<and> y < HEIGHT"
    then have "inside i5 x y" by (simp add: inside_def sh)
    with h have p: "im_pix img x y = ink RGBA (Rgba 255 255 255 100)"
      unfolding img using corner_accents_pix[of seg x y i5 env] sh(3) by simp
    then have p': "im_pix img x y = (255, 255, 255, 100)"
      by (simp add: ink_def clip8_def)
    moreover have "rgb_at (convert RGB img) x y = (255, 255, 255)"
      by (simp add: rgb_at_def convert_def p')
    ultimately show "im_pix img x y = (255, 255, 255, 100)
            \<and> rgb_at (convert RGB img) x y = (255, 255, 255)" ..
  qed
  from calls len accent_geometry pix show ?thesis by blast
qed

theorem corner_accents_opaque_witness:
  "og_result bare_env ''main'' (\<lambda>img. (im_pix img 40 0, rgb_at (convert RGB img) 40 0,
       rgb_at (convert RGB img) 1199 600, length (im_calls img)))
     = Inr ((255, 255, 255, 100), (255, 255, 255), (255, 255, 255), 1238)"
proof -
  obtain config where m: "map_of FORMATS ''main'' = Some config"
    by (simp add: FORMATS_def)
  then have "(''main'', config) \<in> set FORMATS"
    by (rule map_of_SomeD)
  from compose_bare[OF this] obtain img where
    img: "compose_og_image bare_env config = Inr img" ..
  have s1: "((0, 0), (80, 0)) \<in> set accent_segments" "on_segment ((0, 0), (80, 0)) 40 0"
    and s2: "((WIDTH - 1, HEIGHT - 80), (WIDTH - 1, HEIGHT)) \<in> set accent_segments"
      "on_segment ((WIDTH - 1, HEIGHT - 80), (WIDTH - 1, HEIGHT)) 1199 600"
    by (simp_all add: accent_segments_def on_segment_def WIDTH_def HEIGHT_def)
  from corner_accents_opaque[OF img] s1 s2
  have "im_pix img 40 0 = (255, 255, 255, 100)" "rgb_at (convert RGB img) 40 0 = (255, 255, 255)"
    "rgb_at (convert RGB img) 1199 600 = (255, 255, 255)" "length (im_calls img) = 1238"
    by (auto simp: WIDTH_def HEIGHT_def)
  then show ?thesis
    by (simp add: og_result_def m img)
qed

section \<open>The batch driver\<close>

lemma create_og_image_ok:
  assumes "map_of FORMATS k = Some config" "og_ok env dir config"
  shows "create_og_image env k dir w =
     (Inr (path_join dir (filename config)),
      w\<lparr>files := write_og env dir (k, config) (files w),
        console := console w @ [Created (filename config)]\<rparr>)"
  using assms
  by (auto simp: create_og_image_def og_ok_def og_file_def save_png_def print_def Let_def
      write_og_def split: sum.splits)

lemma create_og_image_fail:
  assumes "map_of FORMATS k = Some config" "\<not> og_ok env dir config"
  shows "\<exists>e. create_og_image env k dir w = (Inl e, w)"
  using assms
  by (auto simp: create_og_image_def og_ok_def save_png_def Let_def
      split: sum.splits option.splits)

lemma create_og_image_Inl:
  "fst (create_og_image env k dir w) = Inl e \<Longrightarrow> create_og_image env k dir w = (Inl e, w)"
  by (auto simp: create_og_image_def save_png_def Let_def print_def
      split: sum.splits option.splits)

lemma create_og_image_status:
  "fst (create_og_image env k dir w) = fst (create_og_image env k dir w')"
  by (auto simp: create_og_image_def save_png_def Let_def print_def
      split: sum.splits option.splits)

lemma generate_all_append:
  "generate_all env dir (ks1 @ ks2) created w =
     (case generate_all env dir ks1 created w of
        (Inl e, w') \<Rightarrow> (Inl e, w')
      | (Inr c, w') \<Rightarrow> generate_all env dir ks2 c w')"
  by (induction ks1 arbitrary: created w) (auto split: prod.splits sum.splits)

text \<open>The loop over keys that all succeed.\<close>

lemma generate_all_ok:
  assumes "list_all (\<lambda>kc. map_of FORMATS (fst kc) = Some (snd kc) \<and> og_ok env dir (snd kc)) kcs"
  shows "generate_all env dir (map fst kcs) created w =
     (Inr (created @ map (\<lambda>kc. path_join dir (filename (snd kc))) kcs),
      w\<lparr>files := fold (write_og env dir) kcs (files w),
        console := console w @ map (\<lambda>kc. Created (filename (snd kc))) kcs\<rparr>)"
  using assms
proof (induction kcs arbitrary: created w)
  case Nil
  show ?case by simp
next
  case (Cons kc kcs)
  then have a: "map_of FORMATS (fst kc) = Some (snd kc)" "og_ok env dir (snd kc)"
    and b: "list_all (\<lambda>kc. map_of FORMATS (fst kc) = Some (snd kc) \<and> og_ok env dir (snd kc)) kcs"
    by simp_all
  show ?case
    by (simp add: create_og_image_ok[OF a] Cons.IH[OF b])
qed


lemma formats_keys:
  "list_all (\<lambda>kc. map_of FORMATS (fst kc) = Some (snd kc)) FORMATS"
  by (simp add: FORMATS_def)

lemma main_ok:
  assumes "list_all (\<lambda>kc. og_ok env output_dir (snd kc)) FORMATS"
  shows "main env w =
     (Inr (),
      w\<lparr>files := fold (write_og env output_dir) FORMATS (files w),
        console := console w @ header @ map (\<lambda>kc. Created (filename (snd kc))) FORMATS
          @ [Blank, Summary (length FORMATS), Blank, Files_header]
          @ map (\<lambda>kc. File_item (basename (og_path (snd kc)))) FORMATS\<rparr>)"
proof -
  have "list_all (\<lambda>kc. map_of FORMATS (fst kc) = Some (snd kc) \<and> og_ok env output_dir (snd kc))
      FORMATS"
    using assms formats_keys by (simp add: list_all_iff)
  from generate_all_ok[OF this, of "[]" "print header w"]
  show ?thesis
    by (simp add: main_def Let_def print_def header_def og_path_def comp_def)
qed

lemma main_fail:
  assumes ks: "map fst FORMATS = ks1 @ k # ks2"
    and pre: "fst (generate_all env output_dir ks1 [] (print header w)) = Inr created"
    and bad: "fst (create_og_image env k output_dir
                (snd (generate_all env output_dir ks1 [] (print header w)))) = Inl e"
  shows "main env w = (Inl e, snd (generate_all env output_dir ks1 [] (print header w)))"
proof -
  obtain w1 where g: "generate_all env output_dir ks1 [] (print header w) = (Inr created, w1)"
    using pre by (metis prod.collapse)
  from bad have c: "create_og_image env k output_dir w1 = (Inl e, w1)"
    by (simp add: g create_og_image_Inl)
  show ?thesis
    by (simp add: main_def Let_def ks generate_all_append header_def[symmetric] g c)
qed

text \<open>The loop writes no file but those of its keys.\<close>

lemma create_og_image_files:
  assumes "\<And>c. map_of FORMATS k = Some c \<Longrightarrow> path_join dir (filename c) \<noteq> p"
  shows "files (snd (create_og_image env k dir w)) p = files w p"
  using assms
  by (auto simp: create_og_image_def save_png_def Let_def print_def
      split: sum.splits option.splits)

lemma generate_all_files:
  assumes "\<And>k c. k \<in> set ks \<Longrightarrow> map_of FORMATS k = Some c \<Longrightarrow> path_join dir (filename c) \<noteq> p"
  shows "files (snd (generate_all env dir ks created w)) p = files w p"
  using assms
proof (induction ks arbitrary: created w)
  case Nil
  show ?case by simp
next
  case (Cons k ks)
  have a: "files (snd (create_og_image env k dir w)) p = files w p"
    using Cons.prems by (intro create_og_image_files) auto
  show ?case
  proof (cases "create_og_image env k dir w")
    case (Pair r w')
    with a have w': "files w' p = files w p" by simp
    show ?thesis
    proof (cases r)
      case (Inl e)
      with Pair w' show ?thesis by simp
    next
      case (Inr path)
      have "files (snd (generate_all env dir ks (created @ [path]) w')) p = files w' p"
        using Cons.prems by (intro Cons.IH) auto
      with Pair w' Inr show ?thesis by simp
    qed
  qed
qed

lemma format_filenames:
  "map (\<lambda>kc. (fst kc, filename (snd kc))) FORMATS =
     [(''main'', ''og-image.png''), (''americano'', ''og-image-americano.png''),
      (''mexicano'', ''og-image-mexicano.png''), (''mix'', ''og-image-mix.png''),
      (''team'', ''og-image-team.png'')]"
  by (simp add: FORMATS_def)

lemma format_filename_cases:
  assumes "map_of FORMATS k = Some c"
  shows "(k, filename c) \<in> set [(''main'', ''og-image.png''), (''americano'', ''og-image-americano.png''),
      (''mexicano'', ''og-image-mexicano.png''), (''mix'', ''og-image-mix.png''),
      (''team'', ''og-image-team.png'')]"
proof -
  from assms have "(k, c) \<in> set FORMATS" by (rule map_of_SomeD)
  then have "(\<lambda>kc. (fst kc, filename (snd kc))) (k, c)
      \<in> (\<lambda>kc. (fst kc, filename (snd kc))) ` set FORMATS"
    by (rule imageI)
  then have "(k, filename c) \<in> set (map (\<lambda>kc. (fst kc, filename (snd kc))) FORMATS)"
    by (simp only: set_map fst_conv snd_conv)
  then show ?thesis by (simp only: format_filenames)
qed

lemma path_join_relative:
  "b \<noteq> [] \<Longrightarrow> hd b \<noteq> CHR ''/'' \<Longrightarrow>
     path_join a b = (if a = [] \<or> last a = CHR ''/'' then a else a @ ''/'') @ b"
  by (simp add: path_join_def)

lemma formats_paths_inj:
  assumes "map_of FORMATS a = Some ca" "map_of FORMATS b = Some cb"
    "path_join dir (filename ca) = path_join dir (filename cb)"
  shows "a = b"
proof -
  note fa = format_filename_cases[OF assms(1)] and fb = format_filename_cases[OF assms(2)]
  have ra: "filename ca \<noteq> [] \<and> hd (filename ca) \<noteq> CHR ''/''" using fa by auto
  have rb: "filename cb \<noteq> [] \<and> hd (filename cb) \<noteq> CHR ''/''" using fb by auto
  from assms(3) ra rb have f: "filename ca = filename cb"
    by (simp add: path_join_relative)
  show ?thesis
    using fa fb unfolding f by auto
qed

lemma distinct_format_keys: "distinct (map fst FORMATS)"
  by (simp add: FORMATS_def)

lemma main_success_iff:
  "fst (main env w) = Inr () \<longleftrightarrow> list_all (\<lambda>kc. og_ok env output_dir (snd kc)) FORMATS"
proof
  assume "list_all (\<lambda>kc. og_ok env output_dir (snd kc)) FORMATS"
  from main_ok[OF this] show "fst (main env w) = Inr ()" by simp
next
  assume s: "fst (main env w) = Inr ()"
  show "list_all (\<lambda>kc. og_ok env output_dir (snd kc)) FORMATS"
  proof (rule ccontr)
    assume "\<not> list_all (\<lambda>kc. og_ok env output_dir (snd kc)) FORMATS"
    then have "\<exists>kc \<in> set FORMATS. \<not> og_ok env output_dir (snd kc)"
      by (simp add: list_all_iff)
    from split_list_first_prop[OF this] obtain kcs1 kc kcs2 where
      sp: "FORMATS = kcs1 @ kc # kcs2" and bad: "\<not> og_ok env output_dir (snd kc)"
      and pre: "\<forall>x \<in> set kcs1. \<not> \<not> og_ok env output_dir (snd x)"
      by blast
    have keys: "list_all (\<lambda>kc. map_of FORMATS (fst kc) = Some (snd kc)) (kcs1 @ kc # kcs2)"
      using formats_keys sp by simp
    then have "list_all (\<lambda>kc. map_of FORMATS (fst kc) = Some (snd kc)
        \<and> og_ok env output_dir (snd kc)) kcs1"
      using pre by (simp add: list_all_iff)
    note g = generate_all_ok[OF this, of "[]" "print header w"]
    from keys have "map_of FORMATS (fst kc) = Some (snd kc)" by simp
    from create_og_image_fail[OF this bad] obtain e where
      "\<And>v. fst (create_og_image env (fst kc) output_dir v) = Inl e"
      by (metis create_og_image_status fst_conv)
    with g have "fst (create_og_image env (fst kc) output_dir
        (snd (generate_all env output_dir (map fst kcs1) [] (print header w)))) = Inl e"
      by simp
    from main_fail[of "map fst kcs1" "fst kc" "map fst kcs2" env w, OF _ _ this] g
    have "fst (main env w) = Inl e" by (simp add: sp)
    with s show False by simp
  qed
qed


lemma write_og_apply:
  "write_og env output_dir kc fs p = (if p = og_path (snd kc) then og_file env (snd kc) else fs p)"
  by (simp add: write_og_def og_path_def)

lemma fold_files_other:
  "p \<notin> set (map (\<lambda>kc. og_path (snd kc)) kcs) \<Longrightarrow>
     fold (write_og env output_dir) kcs fs p = fs p"
  by (induction kcs arbitrary: fs) (auto simp: write_og_apply)

lemma fold_files_at:
  "distinct (map (\<lambda>kc. og_path (snd kc)) kcs) \<Longrightarrow> kc \<in> set kcs \<Longrightarrow>
     fold (write_og env output_dir) kcs fs (og_path (snd kc)) = og_file env (snd kc)"
proof (induction kcs arbitrary: fs)
  case Nil
  then show ?case by simp
next
  case (Cons a kcs)
  show ?case
  proof (cases "kc = a")
    case True
    with Cons.prems(1) have "og_path (snd kc) \<notin> set (map (\<lambda>kc. og_path (snd kc)) kcs)" by simp
    then have "fold (write_og env output_dir) kcs (write_og env output_dir a fs) (og_path (snd kc))
        = write_og env output_dir a fs (og_path (snd kc))"
      by (rule fold_files_other)
    moreover have "write_og env output_dir a fs (og_path (snd a)) = og_file env (snd a)"
      by (simp only: write_og_apply refl if_True)
    ultimately show ?thesis
      by (simp only: True fold_simps comp_apply)
  next
    case False
    with Cons show ?thesis by simp
  qed
qed

lemma out_paths_eq:
  "out_paths =
     [''/home/claude/Tournament-main-15/og-image.png'',
      ''/home/claude/Tournament-main-15/og-image-americano.png'',
      ''/home/claude/Tournament-main-15/og-image-mexicano.png'',
      ''/home/claude/Tournament-main-15/og-image-mix.png'',
      ''/home/claude/Tournament-main-15/og-image-team.png'']"
  by (simp add: out_paths_def og_path_def FORMATS_def path_join_def output_dir_def)

lemma distinct_out_paths: "distinct out_paths"
  by (simp add: out_paths_eq)

lemma og_ok_file:
  assumes "og_ok env dir config"
  obtains img where "compose_og_image env config = Inr img"
    "og_file env config = Some (encode_png (convert RGB img))"
  using assms by (auto simp: og_ok_def og_file_def split: sum.splits)

lemma encode_png_simps [simp]:
  "png_mode (encode_png img) = im_mode img"
  "png_width (encode_png img) = im_width img"
  "png_height (encode_png img) = im_height img"
  by (simp_all add: encode_png_def)

lemma og_ok_bare:
  "list_all (\<lambda>kc. og_ok bare_env output_dir (snd kc)) FORMATS"
  unfolding list_all_iff
proof
  fix kc assume "kc \<in> set FORMATS"
  then have "(fst kc, snd kc) \<in> set FORMATS" by simp
  from compose_bare[OF this] show "og_ok bare_env output_dir (snd kc)"
    by (auto simp: og_ok_def bare_env_def)
qed

lemma main_bare: "fst (main bare_env w) = Inr ()"
  by (simp add: main_success_iff og_ok_bare)

text \<open>
  C1: a run of the batch driver that succeeds writes exactly five files, with the fixed
  names, under the fixed directory; each holds an \<open>RGB\<close> image of 3 bytes per pixel, 1200
  pixels wide and 630 high, the image drawn from the table entry that names the file:
  \<open>main\<close> gives \<open>og-image.png\<close>, \<open>americano\<close> gives \<open>og-image-americano.png\<close>, and so on.
\<close>

theorem main_writes_five_pngs:
  assumes "fst (main env w) = Inr ()"
  shows "map (\<lambda>kc. (fst kc, filename (snd kc))) FORMATS =
           [(''main'', ''og-image.png''), (''americano'', ''og-image-americano.png''),
            (''mexicano'', ''og-image-mexicano.png''), (''mix'', ''og-image-mix.png''),
            (''team'', ''og-image-team.png'')]
       \<and> out_paths =
           [''/home/claude/Tournament-main-15/og-image.png'',
            ''/home/claude/Tournament-main-15/og-image-americano.png'',
            ''/home/claude/Tournament-main-15/og-image-mexicano.png'',
            ''/home/claude/Tournament-main-15/og-image-mix.png'',
            ''/home/claude/Tournament-main-15/og-image-team.png'']
       \<and> distinct out_paths
       \<and> (\<forall>p. p \<notin> set out_paths \<longrightarrow> files (snd (main env w)) p = files w p)
       \<and> list_all (\<lambda>kc. \<exists>img. compose_og_image env (snd kc) = Inr img
             \<and> files (snd (main env w)) (og_path (snd kc)) = Some (encode_png (convert RGB img))
             \<and> png_mode (encode_png (convert RGB img)) = RGB
             \<and> bits_per_pixel (png_mode (encode_png (convert RGB img))) = 24
             \<and> png_width (encode_png (convert RGB img)) = 1200
             \<and> png_height (encode_png (convert RGB img)) = 630) FORMATS"
proof -
  from assms have ok: "list_all (\<lambda>kc. og_ok env output_dir (snd kc)) FORMATS"
    by (simp add: main_success_iff)
  have fs: "files (snd (main env w)) =
      fold (write_og env output_dir) FORMATS (files w)"
    by (simp add: main_ok[OF ok])
  have other: "\<forall>p. p \<notin> set out_paths \<longrightarrow> files (snd (main env w)) p = files w p"
    unfolding fs out_paths_def by (simp add: fold_files_other)
  have each: "list_all (\<lambda>kc. \<exists>img. compose_og_image env (snd kc) = Inr img
             \<and> files (snd (main env w)) (og_path (snd kc)) = Some (encode_png (convert RGB img))
             \<and> png_mode (encode_png (convert RGB img)) = RGB
             \<and> bits_per_pixel (png_mode (encode_png (convert RGB img))) = 24
             \<and> png_width (encode_png (convert RGB img)) = 1200
             \<and> png_height (encode_png (convert RGB img)) = 630) FORMATS"
    unfolding list_all_iff
  proof
    fix kc assume kc: "kc \<in> set FORMATS"
    with ok have "og_ok env output_dir (snd kc)" by (simp add: list_all_iff)
    then obtain img where img: "compose_og_image env (snd kc) = Inr img"
      and f: "og_file env (snd kc) = Some (encode_png (convert RGB img))"
      by (rule og_ok_file)
    have "files (snd (main env w)) (og_path (snd kc)) = og_file env (snd kc)"
      unfolding fs using distinct_out_paths kc
      by (intro fold_files_at) (simp_all add: out_paths_def)
    with img f compose_og_image_shape[OF img]
    show "\<exists>img. compose_og_image env (snd kc) = Inr img
             \<and> files (snd (main env w)) (og_path (snd kc)) = Some (encode_png (convert RGB img))
             \<and> png_mode (encode_png (convert RGB img)) = RGB
             \<and> bits_per_pixel (png_mode (encode_png (convert RGB img))) = 24
             \<and> png_width (encode_png (convert RGB img)) = 1200
             \<and> png_height (encode_png (convert RGB img)) = 630"
      by (auto simp: bits_per_pixel_def WIDTH_def HEIGHT_def)
  qed
  from format_filenames out_paths_eq distinct_out_paths other each show ?thesis by blast
qed

theorem main_writes_five_pngs_witness:
  "fst (main bare_env empty_world) = Inr ()
   \<and> map_option (\<lambda>f. (png_mode f, png_width f, png_height f))
       (files (snd (main bare_env empty_world))
          ''/home/claude/Tournament-main-15/og-image-americano.png'') = Some (RGB, 1200, 630)
   \<and> files (snd (main bare_env empty_world)) ''/home/claude/Tournament-main-15/og-image-other.png''
       = None"
proof -
  note t = main_writes_five_pngs[OF main_bare, of empty_world]
  obtain config where m: "map_of FORMATS ''americano'' = Some config"
    by (simp add: FORMATS_def)
  then have kc: "(''americano'', config) \<in> set FORMATS" by (rule map_of_SomeD)
  have f: "filename config = ''og-image-americano.png''"
    using format_filename_cases[OF m] by simp
  have p: "og_path config = ''/home/claude/Tournament-main-15/og-image-americano.png''"
    by (simp add: og_path_def f path_join_def output_dir_def)
  from t kc have "\<exists>img. files (snd (main bare_env empty_world)) (og_path config) =
      Some (encode_png (convert RGB img))
      \<and> png_mode (encode_png (convert RGB img)) = RGB
      \<and> png_width (encode_png (convert RGB img)) = 1200
      \<and> png_height (encode_png (convert RGB img)) = 630"
    unfolding list_all_iff by fastforce
  then have a: "map_option (\<lambda>f. (png_mode f, png_width f, png_height f))
       (files (snd (main bare_env empty_world))
          ''/home/claude/Tournament-main-15/og-image-americano.png'') = Some (RGB, 1200, 630)"
    unfolding p by auto
  from t have "''/home/claude/Tournament-main-15/og-image-other.png'' \<notin> set out_paths \<longrightarrow>
      files (snd (main bare_env empty_world)) ''/home/claude/Tournament-main-15/og-image-other.png''
      = files empty_world ''/home/claude/Tournament-main-15/og-image-other.png''"
    by blast
  then have b: "files (snd (main bare_env empty_world))
      ''/home/claude/Tournament-main-15/og-image-other.png'' = None"
    by (simp add: out_paths_eq empty_world_def)
  from main_bare a b show ?thesis by simp
qed


















end
